theory Spec2Isabelle
  imports Main "HOL-Library.Word" "HOL-Library.Sublist"
begin

section \<open>C strings in character buffers\<close>

text \<open>
  A \<open>char *\<close> of the source is an index into a character buffer. The terminating NUL
  is a character of the buffer like any other, so that the writes of
  \<open>path_to_modname\<close> and \<open>strtok_r\<close> into the caller's buffer are visible.
  A read at or after the end of the buffer yields NUL (a NUL-terminated buffer is never
  read further than its terminator), a write there is dropped.
\<close>

type_synonym cbuf = "char list"

definition NUL :: char where
  "NUL = CHR 0x00"

definition peek :: "cbuf \<Rightarrow> nat \<Rightarrow> char" where
  "peek b i = (if i < length b then b ! i else NUL)"

definition poke :: "cbuf \<Rightarrow> nat \<Rightarrow> char \<Rightarrow> cbuf" where
  "poke b i c = b[i := c]"

text \<open>The string a pointer denotes: the characters from the index up to the next NUL.\<close>

definition cstr :: "cbuf \<Rightarrow> nat \<Rightarrow> string" where
  "cstr b i = takeWhile (\<lambda>c. c \<noteq> NUL) (drop i b)"

text \<open>The buffer holding a string, as a string literal or \<open>strdup\<close> lays it out.\<close>

definition cbuf_of :: "string \<Rightarrow> cbuf" where
  "cbuf_of l = l @ [NUL]"

text \<open>
  \<open>basename\<close> of \<open>string.h\<close> (the GNU version: the source includes no \<open>libgen.h\<close>):
  a pointer to the character after the last slash, or the argument itself when
  there is no slash. It never returns NULL and never writes.
\<close>

definition basename :: "cbuf \<Rightarrow> nat \<Rightarrow> nat" where
  "basename b p =
     (let s = cstr b p in
      if CHR ''/'' \<in> set s
      then p + (length s - length (takeWhile (\<lambda>c. c \<noteq> CHR ''/'') (rev s)))
      else p)"

section \<open>Error numbers\<close>

text \<open>The values of \<open>errno.h\<close> on Linux that the source names.\<close>

definition ENOENT :: int where "ENOENT = 2"
definition ENOMEM :: int where "ENOMEM = 12"
definition EACCES :: int where "EACCES = 13"
definition EINVAL :: int where "EINVAL = 22"
definition EMFILE :: int where "EMFILE = 24"
definition ENOSYS :: int where "ENOSYS = 38"

section \<open>The module handle and the program state\<close>

text \<open>
  \<open>struct kmod_module\<close>. Pointers to handles and to contexts are addresses, NULL is
  \<open>None\<close>. The strings a handle owns are held by value: \<open>None\<close> is the NULL pointer.
  A \<open>struct kmod_list *\<close> of handles is the list of their addresses, NULL the empty
  list. \<open>int refcount\<close> is a 32-bit word read as two's complement.
\<close>

record kmod_module =
  ctx :: "nat option"
  path :: "string option"
  name :: "string option"
  dep :: "nat list"
  refcount :: "32 word"
  init_dep :: bool

text \<open>
  The state: the cells of the handles (a freed cell is \<open>None\<close>; \<open>calloc\<close> takes the
  cell after the last one, so a new address is never one in use), the reference counts of
  the contexts, the outcomes of the coming allocation requests (\<open>True\<close> for success;
  when the list is used up every request succeeds), the open file descriptors, the
  mapped regions and \<open>errno\<close>.
\<close>

record kstate =
  mods :: "kmod_module option list"
  ctx_refs :: "nat \<Rightarrow> int"
  allocs :: "bool list"
  fds :: "nat list"
  maps :: "(nat \<times> nat) list"
  errno :: int

definition cell :: "kstate \<Rightarrow> nat \<Rightarrow> kmod_module option" where
  "cell s p = (if p < length (mods s) then mods s ! p else None)"

text \<open>One request to the allocator: whether it succeeds, and the state after it.\<close>

definition alloc_request :: "kstate \<Rightarrow> kstate \<times> bool" where
  "alloc_request s =
     (case allocs s of
        [] \<Rightarrow> (s, True)
      | ok # rest \<Rightarrow> (s\<lparr>allocs := rest\<rparr>, ok))"

definition strdup :: "kstate \<Rightarrow> string \<Rightarrow> kstate \<times> string option" where
  "strdup s str =
     (let (s', ok) = alloc_request s in (s', if ok then Some str else None))"

section \<open>Canonical module names\<close>

text \<open>
  The loop of \<open>path_to_modname\<close>: from \<open>c\<close> up to the first NUL or dot, every dash
  becomes an underscore. It returns the buffer and the final \<open>c\<close>.
\<close>

function modname_loop :: "cbuf \<Rightarrow> nat \<Rightarrow> cbuf \<times> nat" where
  "modname_loop b c =
     (if peek b c \<noteq> NUL \<and> peek b c \<noteq> CHR ''.''
      then modname_loop (if peek b c = CHR ''-'' then poke b c (CHR ''_'') else b) (c + 1)
      else (b, c))"
  by pat_completeness auto
termination
  by (relation "measure (\<lambda>(b, c). length b - c)")
     (auto simp: peek_def poke_def NUL_def split: if_splits)

declare modname_loop.simps [simp del]

text \<open>
  \<open>path_to_modname\<close>. The result is the caller's buffer after the call and the string
  returned (\<open>None\<close> for NULL). With \<open>alloc\<close> the loop runs on a copy made by \<open>strdup\<close>,
  whose result the source does not check: when that allocation fails the loop
  dereferences NULL, and the call does not return (\<open>None\<close>).
\<close>

definition path_to_modname ::
  "kstate \<Rightarrow> cbuf \<Rightarrow> nat \<Rightarrow> bool \<Rightarrow> (kstate \<times> cbuf \<times> string option) option" where
  "path_to_modname s b p alloc =
     (let modname = basename b p in
      if peek b modname = NUL then Some (s, b, None)
      else if alloc then
        (case strdup s (cstr b modname) of
           (s', None) \<Rightarrow> None
         | (s', Some str) \<Rightarrow>
             (let (d, c) = modname_loop (cbuf_of str) 0
              in Some (s', b, Some (cstr (poke d c NUL) 0))))
      else
        (let (b', c) = modname_loop b modname; b'' = poke b' c NUL
         in Some (s, b'', Some (cstr b'' modname))))"


section \<open>Handles: construction and reference counting\<close>

text \<open>
  Modelled from the spec: \<open>kmod_ref\<close> and \<open>kmod_unref\<close> of the context (libkmod.c is
  not among the sources). The context is reference-counted independently of the handles:
  \<open>kmod_ref\<close> takes one reference, \<open>kmod_unref\<close> gives one back; both do nothing on
  NULL.
\<close>

definition kmod_ref :: "kstate \<Rightarrow> nat option \<Rightarrow> kstate" where
  "kmod_ref s c =
     (case c of
        None \<Rightarrow> s
      | Some a \<Rightarrow> s\<lparr>ctx_refs := (ctx_refs s)(a := ctx_refs s a + 1)\<rparr>)"

definition kmod_unref :: "kstate \<Rightarrow> nat option \<Rightarrow> kstate" where
  "kmod_unref s c =
     (case c of
        None \<Rightarrow> s
      | Some a \<Rightarrow> s\<lparr>ctx_refs := (ctx_refs s)(a := ctx_refs s a - 1)\<rparr>)"

text \<open>
  Modelled from the spec: \<open>kmod_list_append\<close> and \<open>kmod_list_remove\<close> (libkmod-list.c is
  not among the sources). The container is an ordered list with FIFO iteration;
  \<open>kmod_list_append\<close> allocates a node and returns the head of the list with the item
  at its end, or NULL when the allocation fails, which is the result
  \<open>kmod_module_get_holders\<close> tests for.
\<close>

definition kmod_list_append :: "kstate \<Rightarrow> 'a list \<Rightarrow> 'a \<Rightarrow> kstate \<times> 'a list" where
  "kmod_list_append s l x =
     (let (s', ok) = alloc_request s in (s', if ok then l @ [x] else []))"

text \<open>
  \<open>kmod_module_new_from_name\<close>. The result is the state, the value returned and the
  handle stored through \<open>mod\<close> (\<open>None\<close> when nothing is stored).
\<close>

definition kmod_module_new_from_name ::
  "kstate \<Rightarrow> nat option \<Rightarrow> string option \<Rightarrow> kstate \<times> int \<times> nat option" where
  "kmod_module_new_from_name s c nm =
     (if c = None \<or> nm = None then (s, - ENOENT, None)
      else
        (let (s1, ok) = alloc_request s in
         if \<not> ok then (s1, - ENOMEM, None)
         else
           (let s2 = kmod_ref s1 c;
                (s3, nm') = strdup s2 (the nm);
                m = \<lparr>ctx = c, path = None, name = nm', dep = [],
                     refcount = 1, init_dep = False\<rparr>
            in (s3\<lparr>mods := mods s3 @ [Some m]\<rparr>, 0, Some (length (mods s3))))))"

text \<open>What the operating system answers; the calls of the source consult it.\<close>

record stat_t =
  st_isdir :: bool
  st_size :: nat

record env =
  env_stat :: "string \<Rightarrow> int + stat_t"
  env_open :: "string \<Rightarrow> int option"
  env_mmap :: "string \<Rightarrow> nat \<Rightarrow> int + nat"
  env_init_module :: "string \<Rightarrow> nat \<Rightarrow> string \<Rightarrow> int"
  env_delete_module :: "string option \<Rightarrow> 32 word \<Rightarrow> int"
  env_opendir :: "string \<Rightarrow> int + string list"
  env_read_str_safe :: "string \<Rightarrow> nat \<Rightarrow> int \<times> string"
  env_read_str_ulong :: "string \<Rightarrow> nat \<Rightarrow> int \<times> nat"

text \<open>
  \<open>stat\<close>: 0 and the file's status, or -1 with \<open>errno\<close> set (\<open>env_stat\<close> answers
  \<open>Inl\<close> the error number).
\<close>

definition sys_stat :: "env \<Rightarrow> kstate \<Rightarrow> string \<Rightarrow> kstate \<times> int \<times> stat_t option" where
  "sys_stat e s pth =
     (case env_stat e pth of
        Inl en \<Rightarrow> (s\<lparr>errno := en\<rparr>, - 1, None)
      | Inr st \<Rightarrow> (s, 0, Some st))"

definition kmod_module_new_from_path ::
  "env \<Rightarrow> kstate \<Rightarrow> nat option \<Rightarrow> string option \<Rightarrow> kstate \<times> int \<times> nat option" where
  "kmod_module_new_from_path e s c pth =
     (if c = None \<or> pth = None then (s, - ENOENT, None)
      else
        (let (s0, err, st) = sys_stat e s (the pth) in
         if err < 0 then (s0, - errno s0, None)
         else
           (let (s1, ok) = alloc_request s0 in
            if \<not> ok then (s1, - ENOMEM, None)
            else
              (let s2 = kmod_ref s1 c;
                   (s3, pth') = strdup s2 (the pth);
                   m = \<lparr>ctx = c, path = pth', name = None, dep = [],
                        refcount = 1, init_dep = False\<rparr>
               in (s3\<lparr>mods := mods s3 @ [Some m]\<rparr>, 0, Some (length (mods s3)))))))"

definition set_cell :: "kstate \<Rightarrow> nat \<Rightarrow> kmod_module option \<Rightarrow> kstate" where
  "set_cell s p v = s\<lparr>mods := (mods s)[p := v]\<rparr>"

text \<open>
  \<open>kmod_module_unref\<close> and \<open>kmod_module_unref_list\<close> call each other. The first
  argument bounds the depth of that recursion; a call that would go deeper, or that
  touches a freed or unallocated handle, does not return (\<open>None\<close>).
\<close>

fun unref_rec :: "nat \<Rightarrow> kstate \<Rightarrow> nat option \<Rightarrow> (kstate \<times> nat option) option"
  and unref_list_rec :: "nat \<Rightarrow> kstate \<Rightarrow> nat list \<Rightarrow> kstate option" where
  "unref_rec k s None = Some (s, None)"
| "unref_rec 0 s (Some p) = None"
| "unref_rec (Suc k) s (Some p) =
     (case cell s p of
        None \<Rightarrow> None
      | Some m \<Rightarrow>
          (let s1 = set_cell s p (Some (m\<lparr>refcount := refcount m - 1\<rparr>)) in
           if 0 < sint (refcount m - 1) then Some (s1, Some p)
           else
             (case unref_list_rec k s1 (dep m) of
                None \<Rightarrow> None
              | Some s2 \<Rightarrow>
                  (case cell s2 p of
                     None \<Rightarrow> None
                   | Some m2 \<Rightarrow> Some (set_cell (kmod_unref s2 (ctx m2)) p None, None)))))"
| "unref_list_rec k s [] = Some s"
| "unref_list_rec k s (d # ds) =
     (case unref_rec k s (Some d) of
        None \<Rightarrow> None
      | Some (s', r) \<Rightarrow> unref_list_rec k s' ds)"

text \<open>
  A chain of calls deeper than the number of cells visits a handle twice: the
  dependency lists are cyclic, and the source recurses until the stack is exhausted.
\<close>

definition kmod_module_unref :: "kstate \<Rightarrow> nat option \<Rightarrow> (kstate \<times> nat option) option" where
  "kmod_module_unref s p = unref_rec (Suc (length (mods s))) s p"

definition kmod_module_unref_list :: "kstate \<Rightarrow> nat list \<Rightarrow> (kstate \<times> int) option" where
  "kmod_module_unref_list s l =
     (case unref_list_rec (length (mods s)) s l of
        None \<Rightarrow> None
      | Some s' \<Rightarrow> Some (s', 0))"

definition kmod_module_ref :: "kstate \<Rightarrow> nat option \<Rightarrow> (kstate \<times> nat option) option" where
  "kmod_module_ref s p =
     (case p of
        None \<Rightarrow> Some (s, None)
      | Some a \<Rightarrow>
          (case cell s a of
             None \<Rightarrow> None
           | Some m \<Rightarrow> Some (set_cell s a (Some (m\<lparr>refcount := refcount m + 1\<rparr>)), Some a)))"


section \<open>Dependency lines\<close>

text \<open>
  \<open>strchr\<close>, \<open>strspn\<close>, \<open>strcspn\<close> and \<open>strtok_r\<close> of the C library, on indices.
  \<open>strtok_r b str delim saveptr\<close> returns the buffer (a NUL is written over the
  delimiter that ends the token), the token and the new \<open>saveptr\<close>.
\<close>

definition strchr :: "cbuf \<Rightarrow> nat \<Rightarrow> char \<Rightarrow> nat option" where
  "strchr b i ch =
     (let s = cstr b i in
      if ch \<in> set s then Some (i + length (takeWhile (\<lambda>c. c \<noteq> ch) s)) else None)"

definition strspn :: "cbuf \<Rightarrow> nat \<Rightarrow> string \<Rightarrow> nat" where
  "strspn b i accept = length (takeWhile (\<lambda>c. c \<in> set accept) (cstr b i))"

definition strcspn :: "cbuf \<Rightarrow> nat \<Rightarrow> string \<Rightarrow> nat" where
  "strcspn b i reject = length (takeWhile (\<lambda>c. c \<notin> set reject) (cstr b i))"

definition strtok_r :: "cbuf \<Rightarrow> nat option \<Rightarrow> string \<Rightarrow> nat \<Rightarrow> cbuf \<times> nat option \<times> nat" where
  "strtok_r b str delim saveptr =
     (let s0 = (case str of None \<Rightarrow> saveptr | Some i \<Rightarrow> i) in
      if peek b s0 = NUL then (b, None, s0)
      else
        (let s1 = s0 + strspn b s0 delim in
         if peek b s1 = NUL then (b, None, s1)
         else
           (let e = s1 + strcspn b s1 delim in
            if peek b e = NUL then (b, Some s1, e)
            else (poke b e NUL, Some s1, e + 1))))"


text \<open>Neither the tokenizer nor the canonicalization changes the length of the buffer,
  and a token found leaves \<open>saveptr\<close> further on.\<close>

lemma length_poke [simp]: "length (poke b i c) = length b"
  by (simp add: poke_def)

lemma length_modname_loop [simp]: "length (fst (modname_loop b c)) = length b"
proof (induction b c rule: modname_loop.induct)
  case (1 b c)
  show ?case
    using 1 by (subst modname_loop.simps) (auto)
qed

lemma path_to_modname_length:
  "path_to_modname s b p False = Some (s', b', r) \<Longrightarrow> length b' = length b"
  by (auto simp: path_to_modname_def Let_def split: if_splits prod.splits)
     (metis fst_conv length_modname_loop)

lemma peek_not_NUL: "peek b i \<noteq> NUL \<Longrightarrow> i < length b"
  by (auto simp: peek_def split: if_splits)

lemma cstr_peek: "peek b i \<noteq> NUL \<Longrightarrow> cstr b i = peek b i # cstr b (Suc i)"
  by (auto simp: peek_def cstr_def Cons_nth_drop_Suc [symmetric] split: if_splits)

lemma strcspn_pos:
  "peek b i \<noteq> NUL \<Longrightarrow> peek b i \<notin> set d \<Longrightarrow> 0 < strcspn b i d"
  by (simp add: strcspn_def cstr_peek)

lemma peek_drop: "peek b j = (case drop j b of [] \<Rightarrow> NUL | y # ys \<Rightarrow> y)"
  by (auto simp: peek_def hd_drop_conv_nth [symmetric] split: list.splits)

lemma takeWhile_twice: "takeWhile P (takeWhile Q xs) = takeWhile (\<lambda>c. P c \<and> Q c) xs"
  by (induction xs) auto

lemma takeWhile_cstr:
  "takeWhile P (cstr b i) = takeWhile (\<lambda>c. P c \<and> c \<noteq> NUL) (drop i b)"
  by (simp add: cstr_def takeWhile_twice)

lemma peek_after_takeWhile:
  "peek b (i + length (takeWhile P (cstr b i))) =
     (case dropWhile (\<lambda>c. P c \<and> c \<noteq> NUL) (drop i b) of [] \<Rightarrow> NUL | y # ys \<Rightarrow> y)"
  by (simp add: peek_drop takeWhile_cstr dropWhile_eq_drop add.commute)

lemma peek_strspn: "peek b (i + strspn b i d) \<notin> set d \<or> peek b (i + strspn b i d) = NUL"
proof -
  let ?r = "dropWhile (\<lambda>c. c \<in> set d \<and> c \<noteq> NUL) (drop i b)"
  have eq: "peek b (i + strspn b i d) = (case ?r of [] \<Rightarrow> NUL | y # ys \<Rightarrow> y)"
    unfolding strspn_def by (rule peek_after_takeWhile)
  show ?thesis
  proof (cases ?r)
    case Nil
    show ?thesis unfolding eq Nil by simp
  next
    case (Cons y ys)
    then have "\<not> (y \<in> set d \<and> y \<noteq> NUL)"
      using hd_dropWhile [of "\<lambda>c. c \<in> set d \<and> c \<noteq> NUL" "drop i b"] by simp
    with Cons show ?thesis unfolding eq by auto
  qed
qed

lemma strcspn_le: "i + strcspn b i d \<le> max i (length b)"
proof -
  have "length (takeWhile (\<lambda>c. c \<notin> set d \<and> c \<noteq> NUL) (drop i b)) \<le> length (drop i b)"
    by (rule length_takeWhile_le)
  then show ?thesis by (simp add: strcspn_def takeWhile_cstr)
qed

lemma strtok_r_progress:
  assumes "strtok_r b str d save = (b', Some t, save')"
  shows "(case str of None \<Rightarrow> save | Some i \<Rightarrow> i) < save' \<and> save' \<le> length b \<and> length b' = length b"
proof -
  define s0 where "s0 = (case str of None \<Rightarrow> save | Some i \<Rightarrow> i)"
  define s1 where "s1 = s0 + strspn b s0 d"
  define e where "e = s1 + strcspn b s1 d"
  from assms have n1: "peek b s1 \<noteq> NUL"
    by (auto simp: strtok_r_def Let_def s0_def s1_def split: if_splits)
  then have "peek b s1 \<notin> set d"
    using peek_strspn [of b s0 d] by (simp add: s1_def)
  then have "s1 < e"
    using n1 strcspn_pos [of b s1 d] by (simp add: e_def)
  moreover have "s0 \<le> s1" by (simp add: s1_def)
  moreover have "s1 < length b" using n1 by (rule peek_not_NUL)
  then have "e \<le> length b" using strcspn_le [of s1 b d] by (simp add: e_def)
  moreover have "peek b e \<noteq> NUL \<Longrightarrow> e < length b" by (rule peek_not_NUL)
  moreover from assms have "(b', save') = (if peek b e = NUL then (b, e) else (poke b e NUL, e + 1))"
    by (auto simp: strtok_r_def Let_def s0_def s1_def e_def split: if_splits)
  ultimately show ?thesis
    by (auto simp: s0_def split: if_splits)
qed


text \<open>
  The loop of \<open>kmod_module_parse_dep\<close>. Each round takes the next token (the first
  round from \<open>str\<close>, the later ones from \<open>saveptr\<close>), canonicalizes it in place,
  constructs the handle and appends it. \<open>Inr\<close> is the normal exit with the list and the
  count, \<open>Inl\<close> the jump to \<open>fail\<close> with the list accumulated so far and \<open>err\<close>.
\<close>

definition dep_measure :: "cbuf \<Rightarrow> nat option \<Rightarrow> nat \<Rightarrow> nat" where
  "dep_measure b str save = length b - (case str of None \<Rightarrow> save | Some i \<Rightarrow> i)"

function dep_loop ::
  "kstate \<Rightarrow> nat option \<Rightarrow> cbuf \<Rightarrow> nat option \<Rightarrow> nat \<Rightarrow> nat list \<Rightarrow> int
     \<Rightarrow> ((kstate \<times> cbuf \<times> nat list \<times> int) + (kstate \<times> cbuf \<times> nat list \<times> int)) option" where
  "dep_loop s c b str saveptr l n =
     (case strtok_r b str [CHR '' '', CHR 0x09] saveptr of
        (b1, None, saveptr1) \<Rightarrow> Some (Inr (s, b1, l, n))
      | (b1, Some p, saveptr1) \<Rightarrow>
          (case path_to_modname s b1 p False of
             None \<Rightarrow> None
           | Some (s1, b2, modname) \<Rightarrow>
               (let (s2, err, depmod) = kmod_module_new_from_name s1 c modname in
                if err < 0 then Some (Inl (s2, b2, l, err))
                else
                  (let (s3, l') = kmod_list_append s2 l (the depmod)
                   in dep_loop s3 c b2 None saveptr1 l' (n + 1)))))"
  by pat_completeness auto
termination
  apply (relation "measure (\<lambda>(s, c, b, str, saveptr, l, n). dep_measure b str saveptr)")
   apply simp
  apply (clarsimp simp: dep_measure_def dest!: sym [where t = "strtok_r _ _ _ _"])
  apply (drule strtok_r_progress)
  apply (drule path_to_modname_length)
  apply (elim conjE)
  apply arith
  done


declare dep_loop.simps [simp del]

definition upd_cell :: "kstate \<Rightarrow> nat \<Rightarrow> (kmod_module \<Rightarrow> kmod_module) \<Rightarrow> kstate" where
  "upd_cell s p f = set_cell s p (map_option f (cell s p))"

text \<open>
  \<open>kmod_module_parse_dep\<close>: the state, the caller's line buffer after the call and the
  value returned. A failed assertion aborts, a dangling \<open>mod\<close> is dereferenced: no
  return.
\<close>

definition kmod_module_parse_dep ::
  "kstate \<Rightarrow> nat \<Rightarrow> cbuf \<Rightarrow> (kstate \<times> cbuf \<times> int) option" where
  "kmod_module_parse_dep s md line =
     (case cell s md of
        None \<Rightarrow> None
      | Some m \<Rightarrow>
          if \<not> (\<not> init_dep m \<and> dep m = []) then None
          else
            (let s0 = upd_cell s md (\<lambda>m. m\<lparr>init_dep := True\<rparr>) in
             case strchr line 0 (CHR '':'') of
               None \<Rightarrow> Some (s0, line, 0)
             | Some p \<Rightarrow>
                 (case dep_loop s0 (ctx m) line (Some (p + 1)) 0 [] 0 of
                    None \<Rightarrow> None
                  | Some (Inr (s1, b, l, n)) \<Rightarrow>
                      Some (upd_cell s1 md (\<lambda>m. m\<lparr>dep := l\<rparr>), b, n)
                  | Some (Inl (s1, b, l, err)) \<Rightarrow>
                      (case kmod_module_unref_list s1 l of
                         None \<Rightarrow> None
                       | Some (s2, r) \<Rightarrow>
                           (case cell s2 md of
                              None \<Rightarrow> None
                            | Some m2 \<Rightarrow>
                                Some (upd_cell s2 md (\<lambda>m. m\<lparr>init_dep := False\<rparr>), b, err))))))"


section \<open>Alias lookup\<close>

text \<open>
  The four lookup sources (\<open>kmod_lookup_alias_from_config\<close> and its three siblings)
  are not among the sources: they are parameters. Each takes the state, the context, the
  alias and the list \<open>*list\<close> holds, and returns the state, its \<open>err\<close> and the list
  \<open>*list\<close> holds afterwards.
\<close>

type_synonym lookup_source =
  "kstate \<Rightarrow> nat option \<Rightarrow> string option \<Rightarrow> nat list \<Rightarrow> kstate \<times> int \<times> nat list"

record lookup_sources =
  from_config :: lookup_source
  from_moddep_file :: lookup_source
  from_symbols_file :: lookup_source
  from_aliases_file :: lookup_source

text \<open>The macro \<open>CHECK_ERR_AND_FINISH\<close>: where control goes after a source.\<close>

datatype goto = Goto_fail | Goto_finish | Fall_through

definition CHECK_ERR_AND_FINISH :: "int \<Rightarrow> nat list \<Rightarrow> goto" where
  "CHECK_ERR_AND_FINISH err l =
     (if err < 0 then Goto_fail else if l \<noteq> [] then Goto_finish else Fall_through)"

definition lookup_fail :: "kstate \<Rightarrow> int \<Rightarrow> nat list \<Rightarrow> (kstate \<times> int \<times> nat list option) option" where
  "lookup_fail s err l =
     (case kmod_module_unref_list s l of
        None \<Rightarrow> None
      | Some (s', r) \<Rightarrow> Some (s', err, Some []))"

text \<open>
  \<open>kmod_module_new_from_lookup\<close>. The argument \<open>lst\<close> is \<open>None\<close> when the pointer
  \<open>list\<close> is NULL, otherwise the list \<open>*list\<close> holds; the result carries the list it
  holds afterwards.
\<close>

definition kmod_module_new_from_lookup ::
  "lookup_sources \<Rightarrow> kstate \<Rightarrow> nat option \<Rightarrow> string option \<Rightarrow> nat list option
     \<Rightarrow> (kstate \<times> int \<times> nat list option) option" where
  "kmod_module_new_from_lookup src s c alias lst =
     (if c = None \<or> alias = None then Some (s, - ENOENT, lst)
      else if lst = None \<or> the lst \<noteq> [] then Some (s, - ENOSYS, lst)
      else
        (let (s1, err1, l1) = from_config src s c alias [] in
         case CHECK_ERR_AND_FINISH err1 l1 of
           Goto_fail \<Rightarrow> lookup_fail s1 err1 l1
         | Goto_finish \<Rightarrow> Some (s1, err1, Some l1)
         | Fall_through \<Rightarrow>
             (let (s2, err2, l2) = from_moddep_file src s1 c alias l1 in
              case CHECK_ERR_AND_FINISH err2 l2 of
                Goto_fail \<Rightarrow> lookup_fail s2 err2 l2
              | Goto_finish \<Rightarrow> Some (s2, err2, Some l2)
              | Fall_through \<Rightarrow>
                  (let (s3, err3, l3) = from_symbols_file src s2 c alias l2 in
                   case CHECK_ERR_AND_FINISH err3 l3 of
                     Goto_fail \<Rightarrow> lookup_fail s3 err3 l3
                   | Goto_finish \<Rightarrow> Some (s3, err3, Some l3)
                   | Fall_through \<Rightarrow>
                       (let (s4, err4, l4) = from_aliases_file src s3 c alias l3 in
                        case CHECK_ERR_AND_FINISH err4 l4 of
                          Goto_fail \<Rightarrow> lookup_fail s4 err4 l4
                        | Goto_finish \<Rightarrow> Some (s4, err4, Some l4)
                        | Fall_through \<Rightarrow> Some (s4, err4, Some l4))))))"

section \<open>Loading and unloading\<close>

text \<open>
  \<open>get_modname\<close>: the name, derived from the path on first use. A handle with neither
  name nor path hands NULL to \<open>basename\<close>: no return.
\<close>

definition get_modname :: "kstate \<Rightarrow> nat \<Rightarrow> (kstate \<times> string option) option" where
  "get_modname s p =
     (case cell s p of
        None \<Rightarrow> None
      | Some m \<Rightarrow>
          if name m = None then
            (case path m of
               None \<Rightarrow> None
             | Some pth \<Rightarrow>
                 (case path_to_modname s (cbuf_of pth) 0 True of
                    None \<Rightarrow> None
                  | Some (s', b, r) \<Rightarrow> Some (upd_cell s' p (\<lambda>m. m\<lparr>name := r\<rparr>), r)))
          else Some (s, name m))"

text \<open>
  Modelled from the spec: the flag bits of \<open>libkmod.h\<close>, which is not among the sources;
  the recognized bits are force (\<open>O_TRUNC\<close>) and no-wait (\<open>O_NONBLOCK\<close>).
\<close>

definition KMOD_REMOVE_FORCE :: "32 word" where "KMOD_REMOVE_FORCE = 0x200"
definition KMOD_REMOVE_NOWAIT :: "32 word" where "KMOD_REMOVE_NOWAIT = 0x800"

definition kmod_module_remove_module ::
  "env \<Rightarrow> kstate \<Rightarrow> nat option \<Rightarrow> 32 word \<Rightarrow> (kstate \<times> int) option" where
  "kmod_module_remove_module e s md flags =
     (case md of
        None \<Rightarrow> Some (s, - ENOENT)
      | Some p \<Rightarrow>
          (let flags' = and flags (or KMOD_REMOVE_FORCE KMOD_REMOVE_NOWAIT) in
           case get_modname s p of
             None \<Rightarrow> None
           | Some (s1, modname) \<Rightarrow>
               (let err = env_delete_module e modname flags' in
                if err \<noteq> 0 then Some (s1, err) else Some (s1, 0))))"

text \<open>
  The system calls on descriptors and mappings. \<open>open\<close> returns a descriptor that is
  not open, or -1 with \<open>errno\<close> set; \<open>close\<close> releases the descriptor; \<open>mmap\<close> returns
  the address of the new region (\<open>None\<close> is \<open>MAP_FAILED\<close>, with \<open>errno\<close> set);
  \<open>munmap\<close> removes the region.
\<close>

definition fresh_fd :: "nat list \<Rightarrow> nat" where
  "fresh_fd l = fold (\<lambda>x m. max (Suc x) m) l 0"

definition sys_open :: "env \<Rightarrow> kstate \<Rightarrow> string \<Rightarrow> kstate \<times> int" where
  "sys_open e s pth =
     (case env_open e pth of
        Some en \<Rightarrow> (s\<lparr>errno := en\<rparr>, - 1)
      | None \<Rightarrow> (let fd = fresh_fd (fds s) in (s\<lparr>fds := fd # fds s\<rparr>, int fd)))"

definition sys_close :: "kstate \<Rightarrow> int \<Rightarrow> kstate" where
  "sys_close s fd = (if fd < 0 then s else s\<lparr>fds := removeAll (nat fd) (fds s)\<rparr>)"

definition sys_mmap :: "env \<Rightarrow> kstate \<Rightarrow> string \<Rightarrow> nat \<Rightarrow> kstate \<times> nat option" where
  "sys_mmap e s pth len =
     (case env_mmap e pth len of
        Inl en \<Rightarrow> (s\<lparr>errno := en\<rparr>, None)
      | Inr a \<Rightarrow> (s\<lparr>maps := (a, len) # maps s\<rparr>, Some a))"

definition sys_munmap :: "kstate \<Rightarrow> nat \<Rightarrow> nat \<Rightarrow> kstate" where
  "sys_munmap s a len = s\<lparr>maps := remove1 (a, len) (maps s)\<rparr>"

text \<open>\<open>fstat\<close>, whose result the source does not check: the size it leaves in \<open>st\<close>.\<close>

definition sys_fstat_size :: "env \<Rightarrow> string \<Rightarrow> nat" where
  "sys_fstat_size e pth = (case env_stat e pth of Inl en \<Rightarrow> 0 | Inr st \<Rightarrow> st_size st)"

definition kmod_module_insert_module ::
  "env \<Rightarrow> kstate \<Rightarrow> nat option \<Rightarrow> 32 word \<Rightarrow> (kstate \<times> int) option" where
  "kmod_module_insert_module e s md flags =
     (case md of
        None \<Rightarrow> Some (s, - ENOENT)
      | Some p \<Rightarrow>
          (case cell s p of
             None \<Rightarrow> None
           | Some m \<Rightarrow>
               (case path m of
                  None \<Rightarrow> Some (s, - ENOSYS)
                | Some pth \<Rightarrow>
                    (let (s1, fd) = sys_open e s pth in
                     if fd < 0 then Some (s1, - errno s1)
                     else
                       (let len = sys_fstat_size e pth in
                        case sys_mmap e s1 pth len of
                          (s2, None) \<Rightarrow>
                            (let s3 = sys_close s2 fd in Some (s3, - errno s3))
                        | (s2, Some mmaped_file) \<Rightarrow>
                            (let err = env_init_module e pth len [];
                                 s3 = sys_munmap s2 mmaped_file len;
                                 s4 = sys_close s3 fd
                             in Some (s4, err)))))))"


section \<open>Reading the state of a module from sysfs\<close>

datatype kmod_module_initstate =
  KMOD_MODULE_BUILTIN | KMOD_MODULE_LIVE | KMOD_MODULE_COMING | KMOD_MODULE_GOING

definition PATH_MAX :: nat where
  "PATH_MAX = 4096"

text \<open>
  \<open>snprintf\<close> into an array of \<open>n\<close> characters, given the text the format expands
  to: the string stored (cut to fit) and the length of the whole text, which is the value
  returned.
\<close>

definition snprintf :: "nat \<Rightarrow> string \<Rightarrow> string \<times> int" where
  "snprintf n txt = (take (n - 1) txt, int (length txt))"

text \<open>
  \<open>kmod_module_get_initstate\<close>. The \<open>int\<close> returned is a state or a negative error
  number: \<open>Inr\<close> the state, \<open>Inl\<close> the error. A NULL or dangling \<open>mod\<close>, a NULL name
  given to \<open>%s\<close> and a NUL written beyond \<open>path\<close> are undefined: no return.
\<close>

definition kmod_module_get_initstate ::
  "env \<Rightarrow> kstate \<Rightarrow> nat option \<Rightarrow> (kstate \<times> (int + kmod_module_initstate)) option" where
  "kmod_module_get_initstate e s md =
     (case md of
        None \<Rightarrow> None
      | Some p \<Rightarrow>
          (case cell s p of
             None \<Rightarrow> None
           | Some m \<Rightarrow>
               (case name m of
                  None \<Rightarrow> None
                | Some nm \<Rightarrow>
                    (let (pth, pathlen) = snprintf PATH_MAX (''/sys/module/'' @ nm @ ''/initstate'');
                         (s1, fd) = sys_open e s pth
                     in
                       if fd < 0 then
                         (let err = - errno s1 in
                          if pathlen > int (length ''/initstate'') then
                            (let i = nat (pathlen - int (length ''/initstate'')) in
                             if PATH_MAX \<le> i then None
                             else
                               (let pth' = cstr (poke (cbuf_of pth) i NUL) 0;
                                    (s2, r, st) = sys_stat e s1 pth'
                                in
                                  if r = 0 \<and> st_isdir (the st)
                                  then Some (s2, Inr KMOD_MODULE_BUILTIN)
                                  else Some (s2, Inl err)))
                          else Some (s1, Inl err))
                       else
                         (let (err, buf) = env_read_str_safe e pth 32;
                              s2 = sys_close s1 fd
                          in
                            if err < 0 then Some (s2, Inl err)
                            else if buf = ''live'' @ [CHR 0x0A] then Some (s2, Inr KMOD_MODULE_LIVE)
                            else if buf = ''coming'' @ [CHR 0x0A] then Some (s2, Inr KMOD_MODULE_COMING)
                            else if buf = ''going'' @ [CHR 0x0A] then Some (s2, Inr KMOD_MODULE_GOING)
                            else Some (s2, Inl (- EINVAL)))))))"

section \<open>Holders and sections\<close>

text \<open>The test of both loops for the entries \<open>.\<close> and \<open>..\<close>.\<close>

definition dot_or_dotdot :: "string \<Rightarrow> bool" where
  "dot_or_dotdot d_name =
     (let b = cbuf_of d_name in
      peek b 0 = CHR ''.'' \<and> (peek b 1 = NUL \<or> (peek b 1 = CHR ''.'' \<and> peek b 2 = NUL)))"

text \<open>
  \<open>opendir\<close>: the stream is its descriptor and the entries \<open>readdir\<close> will return, in
  their order; NULL with \<open>errno\<close> set when the directory cannot be opened.
\<close>

definition sys_opendir :: "env \<Rightarrow> kstate \<Rightarrow> string \<Rightarrow> kstate \<times> (int \<times> string list) option" where
  "sys_opendir e s dname =
     (case env_opendir e dname of
        Inl en \<Rightarrow> (s\<lparr>errno := en\<rparr>, None)
      | Inr entries \<Rightarrow>
          (let fd = fresh_fd (fds s) in (s\<lparr>fds := fd # fds s\<rparr>, Some (int fd, entries))))"

text \<open>The \<open>while\<close> loop of \<open>kmod_module_get_holders\<close> over the entries left to read.\<close>

fun holders_loop ::
  "kstate \<Rightarrow> nat option \<Rightarrow> string list \<Rightarrow> nat list \<Rightarrow> (kstate \<times> nat list) option" where
  "holders_loop s c [] l = Some (s, l)"
| "holders_loop s c (d_name # des) l =
     (if dot_or_dotdot d_name then holders_loop s c des l
      else
        (let (s1, err, holder) = kmod_module_new_from_name s c (Some d_name) in
         if err < 0 then holders_loop s1 c des l
         else
           (let (s2, node) = kmod_list_append s1 l (the holder) in
            if node \<noteq> [] then holders_loop s2 c des node
            else
              (case kmod_module_unref s2 holder of
                 None \<Rightarrow> None
               | Some (s3, r) \<Rightarrow> holders_loop s3 c des l))))"

definition kmod_module_get_holders ::
  "env \<Rightarrow> kstate \<Rightarrow> nat option \<Rightarrow> (kstate \<times> nat list) option" where
  "kmod_module_get_holders e s md =
     (case md of
        None \<Rightarrow> Some (s, [])
      | Some p \<Rightarrow>
          (case cell s p of
             None \<Rightarrow> None
           | Some m \<Rightarrow>
               (case name m of
                  None \<Rightarrow> None
                | Some nm \<Rightarrow>
                    (let dname = fst (snprintf PATH_MAX (''/sys/module/'' @ nm @ ''/holders'')) in
                     case sys_opendir e s dname of
                       (s1, None) \<Rightarrow> Some (s1, [])
                     | (s1, Some (dfd, entries)) \<Rightarrow>
                         (case holders_loop s1 (ctx m) entries [] of
                            None \<Rightarrow> None
                          | Some (s2, l) \<Rightarrow> Some (sys_close s2 dfd, l))))))"

record kmod_module_section =
  address :: nat
  section_name :: string

text \<open>The file \<open>openat\<close> resolves an entry's name to, relative to the directory.\<close>

definition entry_path :: "string \<Rightarrow> string \<Rightarrow> string" where
  "entry_path dname d_name = dname @ ''/'' @ d_name"

text \<open>
  The \<open>while\<close> loop of \<open>kmod_module_get_sections\<close>. The result of \<open>malloc\<close> is not
  checked: when it fails the store to \<open>section->address\<close> goes through NULL, no return.
\<close>

fun sections_loop ::
  "env \<Rightarrow> kstate \<Rightarrow> string \<Rightarrow> string list \<Rightarrow> kmod_module_section list
     \<Rightarrow> (kstate \<times> kmod_module_section list) option" where
  "sections_loop e s dname [] l = Some (s, l)"
| "sections_loop e s dname (d_name # des) l =
     (if dot_or_dotdot d_name then sections_loop e s dname des l
      else
        (let (s1, fd) = sys_open e s (entry_path dname d_name) in
         if fd < 0 then sections_loop e s1 dname des l
         else
           (let (err, addr) = env_read_str_ulong e (entry_path dname d_name) 16 in
            if err < 0 then sections_loop e (sys_close s1 fd) dname des l
            else
              (let (s2, ok) = alloc_request s1 in
               if \<not> ok then None
               else
                 (let section = \<lparr>address = addr, section_name = d_name\<rparr>;
                      (s3, node) = kmod_list_append s2 l section
                  in sections_loop e (sys_close s3 fd) dname des (if node \<noteq> [] then node else l))))))"

definition kmod_module_get_sections ::
  "env \<Rightarrow> kstate \<Rightarrow> nat option \<Rightarrow> (kstate \<times> kmod_module_section list) option" where
  "kmod_module_get_sections e s md =
     (case md of
        None \<Rightarrow> Some (s, [])
      | Some p \<Rightarrow>
          (case cell s p of
             None \<Rightarrow> None
           | Some m \<Rightarrow>
               (case name m of
                  None \<Rightarrow> None
                | Some nm \<Rightarrow>
                    (let dname = fst (snprintf PATH_MAX (''/sys/module/'' @ nm @ ''/sections'')) in
                     case sys_opendir e s dname of
                       (s1, None) \<Rightarrow> Some (s1, [])
                     | (s1, Some (dfd, entries)) \<Rightarrow>
                         (case sections_loop e s1 dname entries [] of
                            None \<Rightarrow> None
                          | Some (s2, l) \<Rightarrow> Some (sys_close s2 dfd, l))))))"


section \<open>The words of the specification\<close>

text \<open>
  The canonical name as the specification describes it: of the final path component,
  the characters before the first dot, every dash replaced by an underscore.
\<close>

definition underscore :: "char \<Rightarrow> char" where
  "underscore x = (if x = CHR ''-'' then CHR ''_'' else x)"

definition modname_of :: "string \<Rightarrow> string" where
  "modname_of str = map underscore (takeWhile (\<lambda>x. x \<noteq> CHR ''.'') str)"

definition last_component :: "string \<Rightarrow> string" where
  "last_component str = rev (takeWhile (\<lambda>c. c \<noteq> CHR ''/'') (rev str))"

text \<open>
  The error kinds of the specification are negative OS-style error numbers; its
  ``invalid argument'' is \<open>EINVAL\<close>.
\<close>

definition InvalidArgument :: int where
  "InvalidArgument = - EINVAL"

section \<open>A concrete state and environment\<close>

definition init_state :: kstate where
  "init_state = \<lparr>mods = [], ctx_refs = (\<lambda>a. 1), allocs = [], fds = [], maps = [], errno = 0\<rparr>"

text \<open>An environment in which no file exists.\<close>

definition bare_env :: env where
  "bare_env =
     \<lparr>env_stat = (\<lambda>p. Inl ENOENT), env_open = (\<lambda>p. Some ENOENT),
      env_mmap = (\<lambda>p n. Inl ENOMEM), env_init_module = (\<lambda>p n a. 0),
      env_delete_module = (\<lambda>n f. 0), env_opendir = (\<lambda>p. Inl ENOENT),
      env_read_str_safe = (\<lambda>p n. (0, [])), env_read_str_ulong = (\<lambda>p n. (0, 0))\<rparr>"

text \<open>Sample sources: one that finds nothing, one that finds two handles.\<close>

definition no_match :: lookup_source where
  "no_match s c alias l = (s, 0, l)"

definition two_matches :: lookup_source where
  "two_matches s c alias l = (s, 2, l @ [0, 1])"

definition sample_sources :: lookup_sources where
  "sample_sources =
     \<lparr>from_config = no_match, from_moddep_file = no_match,
      from_symbols_file = no_match, from_aliases_file = two_matches\<rparr>"

text \<open>A handle made from a path, and an environment in which that file opens and maps
  but the kernel refuses the module.\<close>

definition path_handle :: kmod_module where
  "path_handle =
     \<lparr>ctx = Some 0, path = Some ''/lib/modules/foo-bar.ko'', name = None, dep = [],
      refcount = 1, init_dep = False\<rparr>"

definition path_state :: kstate where
  "path_state = init_state\<lparr>mods := [Some path_handle], fds := [0, 1, 2]\<rparr>"

definition refusing_env :: env where
  "refusing_env =
     bare_env\<lparr>env_stat := (\<lambda>p. Inr \<lparr>st_isdir = False, st_size = 4096\<rparr>),
              env_open := (\<lambda>p. None), env_mmap := (\<lambda>p n. Inr 65536),
              env_init_module := (\<lambda>p n a. - 8)\<rparr>"

text \<open>A handle with a name, and an environment in which its sysfs directory and its
  \<open>initstate\<close> file exist but no further descriptor can be opened.\<close>

definition named_handle :: kmod_module where
  "named_handle =
     \<lparr>ctx = Some 0, path = None, name = Some ''foo'', dep = [],
      refcount = 1, init_dep = False\<rparr>"

definition named_state :: kstate where
  "named_state = init_state\<lparr>mods := [Some named_handle]\<rparr>"

definition busy_env :: env where
  "busy_env =
     bare_env\<lparr>env_stat := (\<lambda>p. if p = ''/sys/module/foo'' then Inr \<lparr>st_isdir = True, st_size = 0\<rparr>
                               else if p = ''/sys/module/foo/initstate''
                               then Inr \<lparr>st_isdir = False, st_size = 4096\<rparr>
                               else Inl ENOENT),
              env_open := (\<lambda>p. Some EMFILE)\<rparr>"

text \<open>An environment in which the module is live.\<close>

definition live_env :: env where
  "live_env =
     bare_env\<lparr>env_open := (\<lambda>p. if p = ''/sys/module/foo/initstate'' then None else Some ENOENT),
              env_read_str_safe := (\<lambda>p n. (5, ''live'' @ [CHR 0x0A]))\<rparr>"

text \<open>The sections and holders the specification expects of a directory: of the entries
  other than \<open>.\<close> and \<open>..\<close>, in the order of the directory, those whose file opens
  and holds a number; and a handle for every entry.\<close>

definition readable_sections :: "env \<Rightarrow> string \<Rightarrow> string list \<Rightarrow> kmod_module_section list" where
  "readable_sections e dname entries =
     map (\<lambda>d. \<lparr>address = snd (env_read_str_ulong e (entry_path dname d) 16), section_name = d\<rparr>)
       (filter (\<lambda>d. \<not> dot_or_dotdot d \<and> env_open e (entry_path dname d) = None \<and>
                    0 \<le> fst (env_read_str_ulong e (entry_path dname d) 16)) entries)"

definition holder_of :: "nat option \<Rightarrow> string \<Rightarrow> kmod_module" where
  "holder_of c d =
     \<lparr>ctx = c, path = None, name = Some d, dep = [], refcount = 1, init_dep = False\<rparr>"

text \<open>An environment with a sysfs directory for \<open>foo\<close>: two holders, three sections
  of which \<open>.data\<close> cannot be opened.\<close>

definition sysfs_env :: env where
  "sysfs_env =
     bare_env\<lparr>env_opendir := (\<lambda>p. if p = ''/sys/module/foo/sections''
                                  then Inr [''.'', ''..'', ''.text'', ''.data'', ''.bss'']
                                  else if p = ''/sys/module/foo/holders''
                                  then Inr [''.'', ''bar'', ''..'', ''baz'']
                                  else Inl ENOENT),
              env_open := (\<lambda>p. if p = ''/sys/module/foo/sections/.data'' then Some EACCES else None),
              env_read_str_ulong := (\<lambda>p n. (0, length p))\<rparr>"

text \<open>Whether a handle outlives one more \<open>kmod_module_unref\<close>: the test the source
  makes on the decremented count.\<close>

definition still_referenced :: "kmod_module \<Rightarrow> bool" where
  "still_referenced m = (0 < sint (refcount m - 1))"

text \<open>The parts of the state that releasing handles does not touch.\<close>

definition same_frame :: "kstate \<Rightarrow> kstate \<Rightarrow> bool" where
  "same_frame s s' =
     (allocs s' = allocs s \<and> fds s' = fds s \<and> maps s' = maps s \<and> errno s' = errno s \<and>
      length (mods s') = length (mods s))"

text \<open>The cell of a handle without dependencies after one \<open>kmod_module_unref\<close>, and
  whether that call gives a reference back to the context \<open>c\<close>.\<close>

definition released :: "kstate \<Rightarrow> nat \<Rightarrow> kmod_module option" where
  "released s d =
     (case cell s d of
        None \<Rightarrow> None
      | Some md \<Rightarrow> if still_referenced md then Some (md\<lparr>refcount := refcount md - 1\<rparr>) else None)"

definition gives_back :: "kstate \<Rightarrow> nat \<Rightarrow> nat \<Rightarrow> bool" where
  "gives_back s c d =
     (case cell s d of
        None \<Rightarrow> False
      | Some md \<Rightarrow> \<not> still_referenced md \<and> ctx md = Some c)"

definition leaf :: "kstate \<Rightarrow> nat \<Rightarrow> bool" where
  "leaf s d = (case cell s d of None \<Rightarrow> False | Some md \<Rightarrow> dep md = [])"

text \<open>A handle with two dependencies, the second of which someone else holds too.\<close>

definition family_state :: kstate where
  "family_state =
     \<lparr>mods = [Some \<lparr>ctx = Some 0, path = None, name = Some ''mod'', dep = [1, 2],
                     refcount = 1, init_dep = True\<rparr>,
              Some \<lparr>ctx = Some 0, path = None, name = Some ''a'', dep = [],
                     refcount = 1, init_dep = False\<rparr>,
              Some \<lparr>ctx = Some 0, path = None, name = Some ''b'', dep = [],
                     refcount = 2, init_dep = False\<rparr>],
      ctx_refs = (\<lambda>a. 4), allocs = [], fds = [], maps = [], errno = 0\<rparr>"

text \<open>The tokens of a dependency list as the specification describes them: the maximal
  runs of characters other than space and tab.\<close>

definition is_delim :: "char \<Rightarrow> bool" where
  "is_delim ch = (ch \<in> set [CHR '' '', CHR 0x09])"

function tokens :: "string \<Rightarrow> string list" where
  "tokens r =
     (let r1 = dropWhile is_delim r in
      if r1 = [] then []
      else takeWhile (\<lambda>ch. \<not> is_delim ch) r1
             # tokens (drop 1 (dropWhile (\<lambda>ch. \<not> is_delim ch) r1)))"
  by pat_completeness auto
termination
proof (relation "measure length", goal_cases)
  case 1
  show ?case by simp
next
  case (2 r r1)
  have "length (dropWhile (\<lambda>ch. \<not> is_delim ch) r1) \<le> length r1"
    by (rule length_dropWhile_le)
  moreover have "length r1 \<le> length r"
    using 2 by (simp add: length_dropWhile_le)
  moreover have "r1 \<noteq> []" using 2 by simp
  then have "0 < length r1" by simp
  ultimately have "length (dropWhile (\<lambda>ch. \<not> is_delim ch) r1) - 1 < length r"
    by arith
  then show ?case using 2 by simp
qed

declare tokens.simps [simp del]

text \<open>What \<open>path_to_modname\<close> leaves in the buffer in place of a token: the directory
  part, the canonical name and, where the final component had a dot, a NUL for the dot
  and the unchanged suffix.\<close>

definition inplace_token :: "string \<Rightarrow> string" where
  "inplace_token tok =
     take (length tok - length (last_component tok)) tok @ modname_of (last_component tok) @
     (case dropWhile (\<lambda>x. x \<noteq> CHR ''.'') (last_component tok) of
        [] \<Rightarrow> []
      | x # xs \<Rightarrow> NUL # xs)"


definition dep_state :: "kstate \<Rightarrow> nat \<Rightarrow> string list \<Rightarrow> kstate" where
  "dep_state s ca names =
     s\<lparr>ctx_refs := (ctx_refs s)(ca := ctx_refs s ca + int (length names)),
       mods := mods s @ map (\<lambda>nm. Some (holder_of (Some ca) nm)) names\<rparr>"

text \<open>The handles the loop has constructed and still holds: distinct cells from address
  \<open>N\<close> on, each with one reference, no dependencies and the context \<open>c\<close>.\<close>

definition fresh_deps :: "kstate \<Rightarrow> nat option \<Rightarrow> nat \<Rightarrow> nat list \<Rightarrow> bool" where
  "fresh_deps s c N l =
     (distinct l \<and>
      (\<forall>d \<in> set l. N \<le> d \<and>
         (\<exists>nm. cell s d = Some \<lparr>ctx = c, path = None, name = nm, dep = [],
                                   refcount = 1, init_dep = False\<rparr>)))"

definition loop_outcome :: "kstate \<Rightarrow> nat option \<Rightarrow> cbuf \<Rightarrow> cbuf \<Rightarrow> kstate \<Rightarrow> cbuf \<Rightarrow> nat list \<Rightarrow> bool" where
  "loop_outcome s0 c b0 B1 s' b' l' =
     (length b' = length b0 \<and> (\<forall>i. peek B1 i = NUL \<longrightarrow> peek b' i = NUL) \<and>
      length (mods s0) \<le> length (mods s') \<and> (\<forall>a < length (mods s0). cell s' a = cell s0 a) \<and>
      fresh_deps s' c (length (mods s0)) l')"

text \<open>A source that has constructed two handles on the context when it fails for want
  of memory, and the sample sources with it in second place.\<close>

definition found_then_failed :: lookup_source where
  "found_then_failed s c alias l =
     (case c of
        None \<Rightarrow> (s, - ENOENT, l)
      | Some ca \<Rightarrow> (dep_state s ca [''a'', ''b''], - ENOMEM,
                    l @ [length (mods s), length (mods s) + 1]))"

definition failing_sources :: lookup_sources where
  "failing_sources = sample_sources\<lparr>from_moddep_file := found_then_failed\<rparr>"

text \<open>A state in which the sixth and the seventh request to the allocator fail. On the
  line \<open>mod: a b c\<close> these are the list node for \<open>b\<close> and the handle for \<open>c\<close>: each
  round of the loop makes three requests, for the handle, for its name and for the list
  node.\<close>

definition starved_state :: kstate where
  "starved_state = named_state\<lparr>allocs := [True, True, True, True, True, False, False]\<rparr>"

text \<open>A state in which only the seventh request fails: the handle for \<open>c\<close>.\<close>

definition short_state :: kstate where
  "short_state = named_state\<lparr>allocs := [True, True, True, True, True, True, False]\<rparr>"

text \<open>A state in which the first request to the allocator fails.\<close>

definition refused_state :: kstate where
  "refused_state = named_state\<lparr>allocs := [False]\<rparr>"

section \<open>Null arguments\<close>

text \<open>
  C1, as the code has it. \<open>kmod_module_new_from_name\<close> with a NULL context or a NULL
  name, \<open>kmod_module_new_from_path\<close> with a NULL context or a NULL path,
  \<open>kmod_module_remove_module\<close> and \<open>kmod_module_insert_module\<close> with a NULL handle
  return \<open>-ENOENT\<close>, the ``no such entry'' number, store no handle and leave the state
  as it was.
\<close>

theorem null_arguments_ENOENT:
  "(c = None \<or> nm = None \<longrightarrow> kmod_module_new_from_name s c nm = (s, - ENOENT, None)) \<and>
   (c = None \<or> pth = None \<longrightarrow> kmod_module_new_from_path e s c pth = (s, - ENOENT, None)) \<and>
   kmod_module_remove_module e s None flags = Some (s, - ENOENT) \<and>
   kmod_module_insert_module e s None flags = Some (s, - ENOENT)"
  by (simp add: kmod_module_new_from_name_def kmod_module_new_from_path_def
      kmod_module_remove_module_def kmod_module_insert_module_def)

theorem null_arguments_ENOENT_witness:
  "kmod_module_new_from_name init_state None (Some ''mod'') = (init_state, - ENOENT, None) \<and>
   kmod_module_new_from_path bare_env init_state (Some 0) None = (init_state, - ENOENT, None) \<and>
   kmod_module_remove_module bare_env init_state None 0 = Some (init_state, - ENOENT) \<and>
   kmod_module_insert_module bare_env init_state None 0 = Some (init_state, - ENOENT)"
  using null_arguments_ENOENT [of None "Some ''mod''" init_state] 
    null_arguments_ENOENT [of "Some 0" _ init_state None bare_env 0]
  by simp

text \<open>
  C1 as stated fails: the number returned for a NULL name is not the invalid-argument
  number.
\<close>

theorem null_name_not_InvalidArgument:
  "fst (snd (kmod_module_new_from_name init_state (Some 0) None)) \<noteq> InvalidArgument"
  by (simp add: kmod_module_new_from_name_def InvalidArgument_def ENOENT_def EINVAL_def)


section \<open>Canonical names: what the loop computes\<close>

lemma peek_append_length [simp]: "peek (pre @ x # xs) (length pre) = x"
  by (simp add: peek_def)

lemma peek_end [simp]: "peek pre (length pre) = NUL"
  by (simp add: peek_def)

lemma poke_append_length [simp]: "poke (pre @ x # xs) (length pre) y = pre @ y # xs"
  by (simp add: poke_def)

lemma modname_loop_append:
  "modname_loop (pre @ suf) (length pre) =
     (pre @ map underscore (takeWhile (\<lambda>x. x \<noteq> NUL \<and> x \<noteq> CHR ''.'') suf)
          @ dropWhile (\<lambda>x. x \<noteq> NUL \<and> x \<noteq> CHR ''.'') suf,
      length pre + length (takeWhile (\<lambda>x. x \<noteq> NUL \<and> x \<noteq> CHR ''.'') suf))"
proof (induction suf arbitrary: pre)
  case Nil
  show ?case by (subst modname_loop.simps) simp
next
  case (Cons x xs)
  show ?case
  proof (cases "x \<noteq> NUL \<and> x \<noteq> CHR ''.''")
    case False
    then show ?thesis by (subst modname_loop.simps) auto
  next
    case True
    have "modname_loop (pre @ x # xs) (length pre)
            = modname_loop ((pre @ [underscore x]) @ xs) (length (pre @ [underscore x]))"
      using True by (subst modname_loop.simps) (simp add: underscore_def)
    also have "\<dots> = ((pre @ [underscore x]) @ map underscore (takeWhile (\<lambda>x. x \<noteq> NUL \<and> x \<noteq> CHR ''.'') xs)
          @ dropWhile (\<lambda>x. x \<noteq> NUL \<and> x \<noteq> CHR ''.'') xs,
      length (pre @ [underscore x]) + length (takeWhile (\<lambda>x. x \<noteq> NUL \<and> x \<noteq> CHR ''.'') xs))"
      by (rule Cons.IH)
    finally show ?thesis using True by simp
  qed
qed

lemma takeWhile_until [simp]:
  "x \<notin> set t \<Longrightarrow> takeWhile (\<lambda>c. c \<noteq> x) (t @ x # r) = t"
  by (induction t) auto

lemma dropWhile_until [simp]:
  "x \<notin> set t \<Longrightarrow> dropWhile (\<lambda>c. c \<noteq> x) (t @ x # r) = x # r"
  by (induction t) auto

lemma takeWhile_all_neq [simp]:
  "x \<notin> set t \<Longrightarrow> takeWhile (\<lambda>c. c \<noteq> x) t = t"
  by (induction t) auto

lemma cstr_append_NUL: "NUL \<notin> set t \<Longrightarrow> cstr (pre @ t @ NUL # rest) (length pre) = t"
  by (simp add: cstr_def)

lemma cstr_cbuf_of: "NUL \<notin> set l \<Longrightarrow> cstr (cbuf_of l) 0 = l"
  using cstr_append_NUL [of l "[]" "[]"] by (simp add: cbuf_of_def)

lemma split_last_component:
  "CHR ''/'' \<in> set t \<Longrightarrow> \<exists>d. t = d @ CHR ''/'' # last_component t"
proof -
  assume "CHR ''/'' \<in> set t"
  then have "CHR ''/'' \<in> set (rev t)" by simp
  then obtain ys zs where *: "rev t = ys @ CHR ''/'' # zs" "CHR ''/'' \<notin> set ys"
    by (meson split_list_first)
  then have "takeWhile (\<lambda>c. c \<noteq> CHR ''/'') (rev t) = ys"
    by simp
  moreover have "rev (rev t) = rev (ys @ CHR ''/'' # zs)"
    using *(1) by simp
  then have "t = rev zs @ CHR ''/'' # rev ys"
    by simp
  ultimately show ?thesis by (auto simp: last_component_def)
qed

lemma last_component_noslash: "CHR ''/'' \<notin> set t \<Longrightarrow> last_component t = t"
  by (simp add: last_component_def)

lemma last_component_length: "length (last_component t) \<le> length t"
  by (simp add: last_component_def) (metis length_rev length_takeWhile_le)

lemma basename_token:
  assumes "NUL \<notin> set t"
  shows "basename (pre @ t @ NUL # rest) (length pre) = length pre + (length t - length (last_component t))"
  using assms by (auto simp: basename_def cstr_append_NUL Let_def last_component_def)


lemma last_component_split: "\<exists>d. t = d @ last_component t"
proof (cases "CHR ''/'' \<in> set t")
  case True
  then obtain d where "t = d @ CHR ''/'' # last_component t"
    using split_last_component by blast
  then have "t = (d @ [CHR ''/'']) @ last_component t" by simp
  then show ?thesis by blast
next
  case False
  then show ?thesis by (simp add: last_component_noslash)
qed

lemma last_component_no_slash: "CHR ''/'' \<notin> set (last_component t)"
  by (auto simp: last_component_def dest: set_takeWhileD)

lemma takeWhile_stop_base:
  "NUL \<notin> set base \<Longrightarrow>
   takeWhile (\<lambda>x. x \<noteq> NUL \<and> x \<noteq> CHR ''.'') (base @ NUL # rest)
     = takeWhile (\<lambda>x. x \<noteq> CHR ''.'') base"
  by (induction base) auto

lemma dropWhile_stop_base:
  "NUL \<notin> set base \<Longrightarrow>
   dropWhile (\<lambda>x. x \<noteq> NUL \<and> x \<noteq> CHR ''.'') (base @ NUL # rest)
     = dropWhile (\<lambda>x. x \<noteq> CHR ''.'') base @ NUL # rest"
  by (induction base) auto

lemma NUL_notin_modname_of: "NUL \<notin> set base \<Longrightarrow> NUL \<notin> set (modname_of base)"
  by (induction base) (auto simp: modname_of_def underscore_def NUL_def)

lemma path_to_modname_inplace:
  assumes "NUL \<notin> set d" "NUL \<notin> set base" "CHR ''/'' \<notin> set base"
    and "d = [] \<or> last d = CHR ''/''"
  shows "path_to_modname s (pre @ d @ base @ NUL # rest) (length pre) False =
     (if base = [] then Some (s, pre @ d @ base @ NUL # rest, None)
      else Some (s, pre @ d @ modname_of base
                      @ NUL # tl (dropWhile (\<lambda>x. x \<noteq> CHR ''.'') base @ NUL # rest),
                 Some (modname_of base)))"
proof -
  let ?b = "pre @ d @ base @ NUL # rest"
  have lc: "last_component (d @ base) = base"
  proof (cases "d = []")
    case True
    then show ?thesis using assms(3) by (simp add: last_component_noslash)
  next
    case False
    then obtain d' where d: "d = d' @ [CHR ''/'']"
      using assms(4) by (metis append_butlast_last_id)
    show ?thesis using assms(3) by (simp add: last_component_def d)
  qed
  have "NUL \<notin> set (d @ base)" using assms by simp
  then have "basename (pre @ (d @ base) @ NUL # rest) (length pre)
       = length pre + (length (d @ base) - length (last_component (d @ base)))"
    by (rule basename_token)
  then have bn: "basename ?b (length pre) = length (pre @ d)"
    by (simp add: lc)
  have pk: "peek ?b (length (pre @ d)) = hd (base @ [NUL])"
    using peek_append_length [of "pre @ d" "hd (base @ [NUL])" "tl (base @ NUL # rest)"]
    by (cases base) auto
  show ?thesis
  proof (cases "base = []")
    case True
    then show ?thesis using bn pk by (simp add: path_to_modname_def)
  next
    case False
    then have nz: "peek ?b (length (pre @ d)) \<noteq> NUL"
      using pk assms(2) by (cases base) auto
    let ?tw = "takeWhile (\<lambda>x. x \<noteq> CHR ''.'') base"
    let ?dw = "dropWhile (\<lambda>x. x \<noteq> CHR ''.'') base @ NUL # rest"
    have ml: "modname_loop ((pre @ d) @ (base @ NUL # rest)) (length (pre @ d))
            = ((pre @ d) @ map underscore ?tw @ ?dw, length (pre @ d) + length ?tw)"
      using modname_loop_append [of "pre @ d" "base @ NUL # rest"]
      by (simp only: takeWhile_stop_base [OF assms(2)] dropWhile_stop_base [OF assms(2)])
    obtain x xs where dw: "?dw = x # xs" by (cases ?dw) auto
    have pokeeq: "poke ((pre @ d) @ map underscore ?tw @ ?dw) (length (pre @ d) + length ?tw) NUL
         = (pre @ d @ modname_of base) @ NUL # tl ?dw"
      using poke_append_length [of "pre @ d @ map underscore ?tw" x xs NUL]
      by (simp add: dw modname_of_def add.assoc)
    have cs: "cstr ((pre @ d) @ modname_of base @ NUL # tl ?dw) (length (pre @ d)) = modname_of base"
      using assms(2) by (intro cstr_append_NUL NUL_notin_modname_of)
    show ?thesis
      using False bn nz ml pokeeq cs
      by (simp add: path_to_modname_def Let_def)
  qed
qed


lemma last_component_decomp:
  "\<exists>d. t = d @ last_component t \<and> (d = [] \<or> last d = CHR ''/'')"
proof (cases "CHR ''/'' \<in> set t")
  case True
  then obtain d where "t = d @ CHR ''/'' # last_component t"
    using split_last_component by blast
  then have "t = (d @ [CHR ''/'']) @ last_component t \<and> last (d @ [CHR ''/'']) = CHR ''/''"
    by simp
  then show ?thesis by blast
next
  case False
  then show ?thesis by (simp add: last_component_noslash)
qed

lemma path_to_modname_string:
  assumes "NUL \<notin> set l"
  shows "path_to_modname s (cbuf_of l) 0 False =
     (if last_component l = [] then Some (s, cbuf_of l, None)
      else Some (s, take (length l - length (last_component l)) l @ modname_of (last_component l)
                      @ NUL # tl (dropWhile (\<lambda>x. x \<noteq> CHR ''.'') (last_component l) @ [NUL]),
                 Some (modname_of (last_component l))))"
proof -
  obtain d where d: "l = d @ last_component l" "d = [] \<or> last d = CHR ''/''"
    using last_component_decomp by blast
  have n: "NUL \<notin> set d" "NUL \<notin> set (last_component l)"
    using assms d(1) by (metis Un_iff set_append)+
  have tk: "take (length l - length (last_component l)) l = d"
    using d(1) by (metis add_diff_cancel_right' append_eq_conv_conj length_append)
  have "cbuf_of l = [] @ d @ last_component l @ NUL # []"
    using d(1) by (simp add: cbuf_of_def)
  then show ?thesis
    using path_to_modname_inplace [OF n last_component_no_slash d(2), of s "[]" "[]"]
    by (simp add: tk)
qed

lemma path_to_modname_alloc:
  assumes "NUL \<notin> set l"
  shows "path_to_modname s (cbuf_of l) 0 True =
     (if last_component l = [] then Some (s, cbuf_of l, None)
      else if snd (alloc_request s)
        then Some (fst (alloc_request s), cbuf_of l, Some (modname_of (last_component l)))
        else None)"
proof -
  let ?base = "last_component l"
  obtain d where d: "l = d @ ?base" "d = [] \<or> last d = CHR ''/''"
    using last_component_decomp by blast
  have n: "NUL \<notin> set d" "NUL \<notin> set ?base"
    using assms d(1) by (metis Un_iff set_append)+
  have buf: "cbuf_of l = d @ ?base @ NUL # []"
    using d(1) by (simp add: cbuf_of_def)
  have "basename ([] @ l @ NUL # []) (length ([]::char list)) = length ([]::char list) + (length l - length ?base)"
    using assms by (rule basename_token)
  then have bn: "basename (cbuf_of l) 0 = length d"
    using d(1) by (simp add: cbuf_of_def) (metis add_diff_cancel_right' length_append)
  have cs: "cstr (cbuf_of l) (length d) = ?base"
    unfolding buf using cstr_append_NUL [OF n(2), of d "[]"] by simp
  have pk: "peek (cbuf_of l) (length d) = hd (?base @ [NUL])"
    unfolding buf using peek_append_length [of d "hd (?base @ [NUL])" "tl (?base @ [NUL])"]
    by (cases ?base) auto
  show ?thesis
  proof (cases "?base = []")
    case True
    then show ?thesis using bn pk by (simp add: path_to_modname_def)
  next
    case False
    then have nz: "peek (cbuf_of l) (length d) \<noteq> NUL"
      using pk n(2) by (cases ?base) auto
    let ?tw = "takeWhile (\<lambda>x. x \<noteq> CHR ''.'') ?base"
    let ?dw = "dropWhile (\<lambda>x. x \<noteq> CHR ''.'') ?base @ NUL # []"
    have ml: "modname_loop (cbuf_of ?base) 0 = (map underscore ?tw @ ?dw, length ?tw)"
      using modname_loop_append [of "[]" "?base @ NUL # []"]
      by (simp add: cbuf_of_def takeWhile_stop_base [OF n(2)] dropWhile_stop_base [OF n(2)])
    obtain x xs where dw: "?dw = x # xs" by (cases ?dw) auto
    have pokeeq: "poke (map underscore ?tw @ ?dw) (length ?tw) NUL = modname_of ?base @ NUL # xs"
      using poke_append_length [of "map underscore ?tw" x xs NUL]
      by (simp add: dw modname_of_def)
    have cs2: "cstr ([] @ modname_of ?base @ NUL # xs) (length ([]::char list)) = modname_of ?base"
      using n(2) by (intro cstr_append_NUL NUL_notin_modname_of)
    show ?thesis
      using False bn nz ml pokeeq cs cs2
      by (simp add: path_to_modname_def Let_def strdup_def split: prod.splits)
  qed
qed

lemma modname_of_chars:
  "CHR ''-'' \<notin> set (modname_of t) \<and> CHR ''.'' \<notin> set (modname_of t)"
  by (induction t) (auto simp: modname_of_def underscore_def)

lemma modname_of_no_slash: "CHR ''/'' \<notin> set t \<Longrightarrow> CHR ''/'' \<notin> set (modname_of t)"
  by (induction t) (auto simp: modname_of_def underscore_def)

lemma modname_of_fixed:
  "CHR ''-'' \<notin> set n \<Longrightarrow> CHR ''.'' \<notin> set n \<Longrightarrow> modname_of n = n"
  by (induction n) (auto simp: modname_of_def underscore_def)

text \<open>
  C9, as the code has it. For every path whose final component is not empty,
  \<open>path_to_modname\<close> returns the canonical name of that component (in place, and
  on a copy when the allocation succeeds); the name contains neither a dash nor a dot.
  Applied to a canonical name that is not empty it returns that same name and leaves
  the buffer as it is. The name is empty when the final component begins with a dot.
\<close>

theorem path_to_modname_canonical:
  assumes "NUL \<notin> set l" and "last_component l \<noteq> []"
  shows "\<exists>b n. path_to_modname s (cbuf_of l) 0 False = Some (s, b, Some n) \<and>
     (snd (alloc_request s) \<longrightarrow>
        path_to_modname s (cbuf_of l) 0 True = Some (fst (alloc_request s), cbuf_of l, Some n)) \<and>
     n = modname_of (last_component l) \<and>
     CHR ''-'' \<notin> set n \<and> CHR ''.'' \<notin> set n \<and>
     (n \<noteq> [] \<longrightarrow>
        path_to_modname s (cbuf_of n) 0 False = Some (s, cbuf_of n, Some n) \<and>
        (snd (alloc_request s) \<longrightarrow>
           path_to_modname s (cbuf_of n) 0 True = Some (fst (alloc_request s), cbuf_of n, Some n)))"
proof -
  let ?n = "modname_of (last_component l)"
  have nn: "NUL \<notin> set ?n"
    using assms(1) last_component_decomp [of l]
    by (intro NUL_notin_modname_of) (metis Un_iff set_append)
  have ns: "CHR ''/'' \<notin> set ?n"
    by (intro modname_of_no_slash last_component_no_slash)
  have lc: "last_component ?n = ?n"
    using ns by (rule last_component_noslash)
  have fx: "modname_of ?n = ?n"
    using modname_of_chars by (intro modname_of_fixed) auto
  have dw: "dropWhile (\<lambda>x. x \<noteq> CHR ''.'') ?n = []"
    using modname_of_chars [of "last_component l"] by (auto simp add: dropWhile_eq_Nil_conv)
  have idem1: "?n \<noteq> [] \<Longrightarrow> path_to_modname s (cbuf_of ?n) 0 False = Some (s, cbuf_of ?n, Some ?n)"
    using path_to_modname_string [OF nn, of s] by (simp add: lc fx dw cbuf_of_def)
  have idem2: "?n \<noteq> [] \<Longrightarrow> snd (alloc_request s) \<Longrightarrow>
      path_to_modname s (cbuf_of ?n) 0 True = Some (fst (alloc_request s), cbuf_of ?n, Some ?n)"
    using path_to_modname_alloc [OF nn, of s] by (simp add: lc fx)
  show ?thesis
    using path_to_modname_string [OF assms(1), of s] path_to_modname_alloc [OF assms(1), of s]
      assms(2) modname_of_chars [of "last_component l"] idem1 idem2
    by simp
qed

theorem path_to_modname_canonical_witness:
  "NUL \<notin> set ''/lib/modules/foo-bar.ko'' \<and> last_component ''/lib/modules/foo-bar.ko'' \<noteq> [] \<and>
   path_to_modname init_state (cbuf_of ''/lib/modules/foo-bar.ko'') 0 True
     = Some (init_state, cbuf_of ''/lib/modules/foo-bar.ko'', Some ''foo_bar'') \<and>
   path_to_modname init_state (cbuf_of ''foo_bar'') 0 True
     = Some (init_state, cbuf_of ''foo_bar'', Some ''foo_bar'')"
proof -
  have h1: "NUL \<notin> set ''/lib/modules/foo-bar.ko''" by (simp add: NUL_def)
  have h2: "last_component ''/lib/modules/foo-bar.ko'' \<noteq> []" by (simp add: last_component_def)
  have n: "modname_of (last_component ''/lib/modules/foo-bar.ko'') = ''foo_bar''"
    by (simp add: last_component_def modname_of_def underscore_def)
  have a: "alloc_request init_state = (init_state, True)"
    by (simp add: alloc_request_def init_state_def)
  show ?thesis
    using path_to_modname_canonical [OF h1 h2, of init_state] h1 h2
    by (simp add: n a)
qed

text \<open>
  C9 as stated fails where the final component begins with a dot: the canonical name
  of \<open>.ko\<close> is the empty string, and on the empty string \<open>path_to_modname\<close>
  returns NULL, not the empty string.
\<close>

theorem path_to_modname_not_idempotent:
  "path_to_modname init_state (cbuf_of ''.ko'') 0 True = Some (init_state, cbuf_of ''.ko'', Some []) \<and>
   path_to_modname init_state (cbuf_of []) 0 True = Some (init_state, cbuf_of [], None)"
proof -
  have h1: "NUL \<notin> set ''.ko''" "NUL \<notin> set []" by (simp_all add: NUL_def)
  have a: "alloc_request init_state = (init_state, True)"
    by (simp add: alloc_request_def init_state_def)
  show ?thesis
    using path_to_modname_alloc [OF h1(1), of init_state] path_to_modname_alloc [OF h1(2), of init_state]
    by (simp add: a last_component_def modname_of_def)
qed



section \<open>Alias lookup: the order of the sources\<close>

lemma lookup_fail_map:
  "lookup_fail s e l = map_option (\<lambda>(s', r). (s', e, Some [])) (kmod_module_unref_list s l)"
  by (simp add: lookup_fail_def split: option.splits)

lemma lookup_chain:
  assumes "c \<noteq> None" and "alias \<noteq> None"
    and "from_config src s c alias [] = (s1, e1, l1)"
    and "from_moddep_file src s1 c alias [] = (s2, e2, l2)"
    and "from_symbols_file src s2 c alias [] = (s3, e3, l3)"
    and "from_aliases_file src s3 c alias [] = (s4, e4, l4)"
  shows "kmod_module_new_from_lookup src s c alias (Some []) =
     (if e1 < 0 then lookup_fail s1 e1 l1
      else if l1 \<noteq> [] then Some (s1, e1, Some l1)
      else if e2 < 0 then lookup_fail s2 e2 l2
      else if l2 \<noteq> [] then Some (s2, e2, Some l2)
      else if e3 < 0 then lookup_fail s3 e3 l3
      else if l3 \<noteq> [] then Some (s3, e3, Some l3)
      else if e4 < 0 then lookup_fail s4 e4 l4
      else Some (s4, e4, Some l4))"
  using assms
  by (cases c; cases "alias") (simp_all add: kmod_module_new_from_lookup_def CHECK_ERR_AND_FINISH_def)

lemma lookup_first_decides:
  assumes "c \<noteq> None" and "alias \<noteq> None"
    and "from_config src s c alias [] = (s1, e1, l1)" and "e1 < 0 \<or> l1 \<noteq> []"
  shows "kmod_module_new_from_lookup src s c alias (Some []) =
     (if e1 < 0 then lookup_fail s1 e1 l1 else Some (s1, e1, Some l1))"
  using assms
  by (cases c; cases "alias") (auto simp add: kmod_module_new_from_lookup_def CHECK_ERR_AND_FINISH_def)

lemma lookup_second_decides:
  assumes "c \<noteq> None" and "alias \<noteq> None"
    and "from_config src s c alias [] = (s1, e1, [])" and "0 \<le> e1"
    and "from_moddep_file src s1 c alias [] = (s2, e2, l2)" and "e2 < 0 \<or> l2 \<noteq> []"
  shows "kmod_module_new_from_lookup src s c alias (Some []) =
     (if e2 < 0 then lookup_fail s2 e2 l2 else Some (s2, e2, Some l2))"
  using assms
  by (cases c; cases "alias") (auto simp add: kmod_module_new_from_lookup_def CHECK_ERR_AND_FINISH_def)

lemma lookup_third_decides:
  assumes "c \<noteq> None" and "alias \<noteq> None"
    and "from_config src s c alias [] = (s1, e1, [])" and "0 \<le> e1"
    and "from_moddep_file src s1 c alias [] = (s2, e2, [])" and "0 \<le> e2"
    and "from_symbols_file src s2 c alias [] = (s3, e3, l3)" and "e3 < 0 \<or> l3 \<noteq> []"
  shows "kmod_module_new_from_lookup src s c alias (Some []) =
     (if e3 < 0 then lookup_fail s3 e3 l3 else Some (s3, e3, Some l3))"
  using assms
  by (cases c; cases "alias") (auto simp add: kmod_module_new_from_lookup_def CHECK_ERR_AND_FINISH_def)

lemma lookup_nonempty:
  "c \<noteq> None \<Longrightarrow> alias \<noteq> None \<Longrightarrow>
   kmod_module_new_from_lookup src s c alias (Some (x # xs)) = Some (s, - ENOSYS, Some (x # xs))"
  by (cases c; cases "alias") (simp_all add: kmod_module_new_from_lookup_def)



section \<open>Loading a module: descriptors and mappings\<close>

lemma fold_max_ge: "a \<le> fold (\<lambda>x m. max (Suc x) m) l a"
proof (induction l arbitrary: a)
  case Nil
  show ?case by simp
next
  case (Cons y ys)
  have "a \<le> max (Suc y) a" by simp
  also have "\<dots> \<le> fold (\<lambda>x m. max (Suc x) m) ys (max (Suc y) a)" by (rule Cons.IH)
  finally show ?case by simp
qed

lemma fold_max_gt: "x \<in> set l \<Longrightarrow> x < fold (\<lambda>x m. max (Suc x) m) l a"
proof (induction l arbitrary: a)
  case Nil
  then show ?case by simp
next
  case (Cons y ys)
  show ?case
  proof (cases "x = y")
    case True
    have "Suc y \<le> max (Suc y) a" by simp
    also have "\<dots> \<le> fold (\<lambda>x m. max (Suc x) m) ys (max (Suc y) a)" by (rule fold_max_ge)
    finally show ?thesis using True by simp
  next
    case False
    then have "x \<in> set ys" using Cons.prems by simp
    then show ?thesis using Cons.IH by simp
  qed
qed

lemma fresh_fd_fresh: "fresh_fd l \<notin> set l"
  using fold_max_gt [of "fresh_fd l" l 0] by (auto simp: fresh_fd_def)

lemma close_fresh_fd:
  "0 \<le> int (fresh_fd (fds s)) \<and>
   sys_close (s1\<lparr>fds := fresh_fd (fds s) # fds s\<rparr>) (int (fresh_fd (fds s))) = s1\<lparr>fds := fds s\<rparr>"
  using fresh_fd_fresh [of "fds s"] by (simp add: sys_close_def)

lemma insert_module_outcome:
  assumes "cell s p = Some m" and "path m = Some pth"
  shows "kmod_module_insert_module e s (Some p) flags =
     (case env_open e pth of
        Some en \<Rightarrow> Some (s\<lparr>errno := en\<rparr>, - en)
      | None \<Rightarrow>
          (case env_mmap e pth (sys_fstat_size e pth) of
             Inl en \<Rightarrow> Some (s\<lparr>errno := en\<rparr>, - en)
           | Inr a \<Rightarrow> Some (s, env_init_module e pth (sys_fstat_size e pth) [])))"
proof (cases "env_open e pth")
  case (Some en)
  then show ?thesis
    using assms by (simp add: kmod_module_insert_module_def sys_open_def)
next
  case None
  let ?fd = "fresh_fd (fds s)"
  have op: "sys_open e s pth = (s\<lparr>fds := ?fd # fds s\<rparr>, int ?fd)"
    using None by (simp add: sys_open_def Let_def)
  show ?thesis
  proof (cases "env_mmap e pth (sys_fstat_size e pth)")
    case (Inl en)
    have "sys_close (s\<lparr>fds := ?fd # fds s, errno := en\<rparr>) (int ?fd) = s\<lparr>errno := en\<rparr>"
      using fresh_fd_fresh [of "fds s"] by (simp add: sys_close_def)
    then show ?thesis
      using assms None Inl op by (simp add: kmod_module_insert_module_def sys_mmap_def Let_def)
  next
    case (Inr a)
    let ?len = "sys_fstat_size e pth"
    have "sys_munmap (s\<lparr>fds := ?fd # fds s, maps := (a, ?len) # maps s\<rparr>) a ?len
            = s\<lparr>fds := ?fd # fds s\<rparr>"
      by (simp add: sys_munmap_def)
    moreover have "sys_close (s\<lparr>fds := ?fd # fds s\<rparr>) (int ?fd) = s"
      using close_fresh_fd [of s s] by simp
    ultimately show ?thesis
      using assms None Inr op by (simp add: kmod_module_insert_module_def sys_mmap_def Let_def)
  qed
qed

text \<open>
  C6. \<open>kmod_module_insert_module\<close> on a handle with a path always returns, and
  when it has returned the open descriptors and the mapped regions are those from before
  the call, whether \<open>open\<close> failed, \<open>mmap\<close> failed or the kernel was asked; the
  handles are untouched. When the file was opened and mapped, the value returned is the
  one \<open>init_module\<close> gave, an error included, and the state is the one from before.
\<close>

theorem insert_releases_descriptor_and_mapping:
  assumes "cell s p = Some m" and "path m = Some pth"
  shows "\<exists>s' r. kmod_module_insert_module e s (Some p) flags = Some (s', r) \<and>
     fds s' = fds s \<and> maps s' = maps s \<and> mods s' = mods s \<and>
     (env_open e pth = None \<longrightarrow>
        (\<forall>a. env_mmap e pth (sys_fstat_size e pth) = Inr a \<longrightarrow>
           s' = s \<and> r = env_init_module e pth (sys_fstat_size e pth) []))"
  unfolding insert_module_outcome [OF assms]
  by (auto split: option.splits sum.splits)

theorem insert_releases_descriptor_and_mapping_witness:
  "cell path_state 0 = Some path_handle \<and> path path_handle = Some ''/lib/modules/foo-bar.ko'' \<and>
   kmod_module_insert_module refusing_env path_state (Some 0) 0 = Some (path_state, - 8)"
proof -
  have h: "cell path_state 0 = Some path_handle" "path path_handle = Some ''/lib/modules/foo-bar.ko''"
    by (simp_all add: cell_def path_state_def path_handle_def)
  have e: "env_open refusing_env ''/lib/modules/foo-bar.ko'' = None"
    "env_mmap refusing_env ''/lib/modules/foo-bar.ko'' (sys_fstat_size refusing_env ''/lib/modules/foo-bar.ko'') = Inr 65536"
    "env_init_module refusing_env ''/lib/modules/foo-bar.ko'' (sys_fstat_size refusing_env ''/lib/modules/foo-bar.ko'') [] = - 8"
    by (simp_all add: refusing_env_def bare_env_def)
  show ?thesis
    using insert_releases_descriptor_and_mapping [OF h, of refusing_env 0] e h by auto
qed


section \<open>The state of a module in sysfs\<close>

lemma cstr_poke_cut:
  assumes "NUL \<notin> set a"
  shows "cstr (poke (cbuf_of (a @ x # xs)) (length a) NUL) 0 = a"
proof -
  have "poke (a @ x # (xs @ [NUL])) (length a) NUL = a @ NUL # (xs @ [NUL])"
    by (rule poke_append_length)
  then have "poke (cbuf_of (a @ x # xs)) (length a) NUL = [] @ a @ NUL # (xs @ [NUL])"
    by (simp add: cbuf_of_def)
  then show ?thesis
    using cstr_append_NUL [OF assms, of "[]" "xs @ [NUL]"] by simp
qed

lemma initstate_path:
  assumes "length nm + 22 < PATH_MAX"
  shows "snprintf PATH_MAX (''/sys/module/'' @ nm @ ''/initstate'')
           = (''/sys/module/'' @ nm @ ''/initstate'', int (length nm) + 22)"
  using assms by (simp add: snprintf_def)

lemma get_initstate_core:
  assumes "cell s p = Some m" and "name m = Some nm"
    and "snprintf PATH_MAX (''/sys/module/'' @ nm @ ''/initstate'') = (pth, pl)"
    and "10 < pl" and "nat (pl - 10) < PATH_MAX"
    and "cstr (poke (cbuf_of pth) (nat (pl - 10)) NUL) 0 = dir"
  shows "kmod_module_get_initstate e s (Some p) =
     (case env_open e pth of
        Some en \<Rightarrow>
          (case env_stat e dir of
             Inl en' \<Rightarrow> Some (s\<lparr>errno := en'\<rparr>, Inl (- en))
           | Inr st \<Rightarrow>
               if st_isdir st then Some (s\<lparr>errno := en\<rparr>, Inr KMOD_MODULE_BUILTIN)
               else Some (s\<lparr>errno := en\<rparr>, Inl (- en)))
      | None \<Rightarrow>
          (let (err, buf) = env_read_str_safe e pth 32 in
           if err < 0 then Some (s, Inl err)
           else if buf = ''live'' @ [CHR 0x0A] then Some (s, Inr KMOD_MODULE_LIVE)
           else if buf = ''coming'' @ [CHR 0x0A] then Some (s, Inr KMOD_MODULE_COMING)
           else if buf = ''going'' @ [CHR 0x0A] then Some (s, Inr KMOD_MODULE_GOING)
           else Some (s, Inl (- EINVAL))))"
proof (cases "env_open e pth")
  case (Some en)
  have op: "sys_open e s pth = (s\<lparr>errno := en\<rparr>, - 1)"
    using Some by (simp add: sys_open_def)
  show ?thesis
    apply (simp only: kmod_module_get_initstate_def assms(1,2) option.case)
    apply (simp only: assms(3))
    using assms(4,5)
    apply (simp add: op assms(6) Some sys_stat_def split: sum.splits)
    done
next
  case None
  let ?fd = "fresh_fd (fds s)"
  have op: "sys_open e s pth = (s\<lparr>fds := ?fd # fds s\<rparr>, int ?fd)"
    using None by (simp add: sys_open_def Let_def)
  have cl: "sys_close (s\<lparr>fds := ?fd # fds s\<rparr>) (int ?fd) = s"
    using fresh_fd_fresh [of "fds s"] by (simp add: sys_close_def)
  show ?thesis
    apply (simp only: kmod_module_get_initstate_def assms(1,2) option.case)
    apply (simp only: assms(3))
    apply (simp add: op cl None split: prod.splits)
    done
qed

lemma get_initstate_outcome:
  assumes "cell s p = Some m" and "name m = Some nm"
    and "NUL \<notin> set nm" and "length nm + 22 < PATH_MAX"
  shows "kmod_module_get_initstate e s (Some p) =
     (case env_open e (''/sys/module/'' @ nm @ ''/initstate'') of
        Some en \<Rightarrow>
          (case env_stat e (''/sys/module/'' @ nm) of
             Inl en' \<Rightarrow> Some (s\<lparr>errno := en'\<rparr>, Inl (- en))
           | Inr st \<Rightarrow>
               if st_isdir st then Some (s\<lparr>errno := en\<rparr>, Inr KMOD_MODULE_BUILTIN)
               else Some (s\<lparr>errno := en\<rparr>, Inl (- en)))
      | None \<Rightarrow>
          (let (err, buf) = env_read_str_safe e (''/sys/module/'' @ nm @ ''/initstate'') 32 in
           if err < 0 then Some (s, Inl err)
           else if buf = ''live'' @ [CHR 0x0A] then Some (s, Inr KMOD_MODULE_LIVE)
           else if buf = ''coming'' @ [CHR 0x0A] then Some (s, Inr KMOD_MODULE_COMING)
           else if buf = ''going'' @ [CHR 0x0A] then Some (s, Inr KMOD_MODULE_GOING)
           else Some (s, Inl (- EINVAL))))"
proof -
  let ?pth = "''/sys/module/'' @ nm @ ''/initstate''"
  let ?dir = "''/sys/module/'' @ nm"
  have sn: "snprintf PATH_MAX ?pth = (?pth, int (length nm) + 22)"
    using assms(4) by (rule initstate_path)
  have idx: "nat (int (length nm) + 22 - 10) = length ?dir"
    by simp
  have nn: "NUL \<notin> set ?dir" using assms(3) by (simp add: NUL_def)
  have "cstr (poke (cbuf_of (?dir @ CHR ''/'' # ''initstate'')) (length ?dir) NUL) 0 = ?dir"
    using nn by (rule cstr_poke_cut)
  then have cut: "cstr (poke (cbuf_of ?pth) (nat (int (length nm) + 22 - 10)) NUL) 0 = ?dir"
    unfolding idx by simp
  have lt: "nat (int (length nm) + 22 - 10) < PATH_MAX" using assms(4) by simp
  have gt: "10 < int (length nm) + 22" by simp
  show ?thesis
    using assms(1,2) sn gt lt cut by (rule get_initstate_core)
qed

text \<open>
  C7, as the code has it. For a handle with a name whose sysfs path fits into
  \<open>PATH_MAX\<close> characters, \<open>kmod_module_get_initstate\<close> returns and leaves no
  descriptor open. It reports Builtin exactly when \<open>open\<close> of the \<open>initstate\<close> file
  fails, for whatever reason, and \<open>/sys/module/<name>\<close> is a directory; when \<open>open\<close>
  fails otherwise it returns the negated error number of \<open>open\<close>. When the file opens
  and is read, it reports Live, Coming or Going for the contents \<open>live\<close>, \<open>coming\<close>
  and \<open>going\<close> followed by a newline and nothing else, and \<open>-EINVAL\<close> for any other
  content; a read that fails gives the error of the read.
\<close>

theorem get_initstate_reports:
  assumes "cell s p = Some m" and "name m = Some nm"
    and "NUL \<notin> set nm" and "length nm + 22 < PATH_MAX"
  shows "\<exists>s' r. kmod_module_get_initstate e s (Some p) = Some (s', r) \<and>
     fds s' = fds s \<and>
     (r = Inr KMOD_MODULE_BUILTIN \<longleftrightarrow>
        env_open e (''/sys/module/'' @ nm @ ''/initstate'') \<noteq> None \<and>
        (\<exists>st. env_stat e (''/sys/module/'' @ nm) = Inr st \<and> st_isdir st)) \<and>
     (\<forall>en. env_open e (''/sys/module/'' @ nm @ ''/initstate'') = Some en \<and>
           r \<noteq> Inr KMOD_MODULE_BUILTIN \<longrightarrow> r = Inl (- en)) \<and>
     (\<forall>err buf. env_open e (''/sys/module/'' @ nm @ ''/initstate'') = None \<and>
           env_read_str_safe e (''/sys/module/'' @ nm @ ''/initstate'') 32 = (err, buf) \<longrightarrow>
        r = (if err < 0 then Inl err
             else if buf = ''live'' @ [CHR 0x0A] then Inr KMOD_MODULE_LIVE
             else if buf = ''coming'' @ [CHR 0x0A] then Inr KMOD_MODULE_COMING
             else if buf = ''going'' @ [CHR 0x0A] then Inr KMOD_MODULE_GOING
             else Inl (- EINVAL)))"
  unfolding get_initstate_outcome [OF assms]
  by (auto split: option.splits sum.splits prod.splits)

lemma named_state_facts:
  "cell named_state 0 = Some named_handle" "name named_handle = Some ''foo''"
  "NUL \<notin> set ''foo''" "length ''foo'' + 22 < PATH_MAX"
  by (simp_all add: cell_def named_state_def named_handle_def NUL_def PATH_MAX_def)

theorem get_initstate_reports_witness:
  "cell named_state 0 = Some named_handle \<and> name named_handle = Some ''foo'' \<and>
   NUL \<notin> set ''foo'' \<and> length ''foo'' + 22 < PATH_MAX \<and>
   map_option snd (kmod_module_get_initstate live_env named_state (Some 0))
     = Some (Inr KMOD_MODULE_LIVE)"
proof -
  have e: "env_open live_env (''/sys/module/'' @ ''foo'' @ ''/initstate'') = None"
    "env_read_str_safe live_env (''/sys/module/'' @ ''foo'' @ ''/initstate'') 32 = (5, ''live'' @ [CHR 0x0A])"
    by (simp_all add: live_env_def bare_env_def)
  obtain s' r where r: "kmod_module_get_initstate live_env named_state (Some 0) = Some (s', r)"
    and l: "\<forall>err buf. env_open live_env (''/sys/module/'' @ ''foo'' @ ''/initstate'') = None \<and>
           env_read_str_safe live_env (''/sys/module/'' @ ''foo'' @ ''/initstate'') 32 = (err, buf) \<longrightarrow>
        r = (if err < 0 then Inl err
             else if buf = ''live'' @ [CHR 0x0A] then Inr KMOD_MODULE_LIVE
             else if buf = ''coming'' @ [CHR 0x0A] then Inr KMOD_MODULE_COMING
             else if buf = ''going'' @ [CHR 0x0A] then Inr KMOD_MODULE_GOING
             else Inl (- EINVAL))"
    using get_initstate_reports [OF named_state_facts, of live_env] by blast
  have "r = Inr KMOD_MODULE_LIVE"
    using l [rule_format, of 5 "''live'' @ [CHR 0x0A]"] e by simp
  then show ?thesis using r named_state_facts by simp
qed

text \<open>
  C7 as stated fails: with the \<open>initstate\<close> file present but no descriptor to be had,
  \<open>open\<close> fails with \<open>EMFILE\<close>, the directory is found, and the module is reported
  as built in.
\<close>

theorem builtin_though_initstate_exists:
  "env_stat busy_env ''/sys/module/foo/initstate'' = Inr \<lparr>st_isdir = False, st_size = 4096\<rparr> \<and>
   env_open busy_env ''/sys/module/foo/initstate'' = Some EMFILE \<and>
   map_option snd (kmod_module_get_initstate busy_env named_state (Some 0))
     = Some (Inr KMOD_MODULE_BUILTIN)"
proof -
  have e: "env_open busy_env (''/sys/module/'' @ ''foo'' @ ''/initstate'') = Some EMFILE"
    "env_stat busy_env (''/sys/module/'' @ ''foo'') = Inr \<lparr>st_isdir = True, st_size = 0\<rparr>"
    "env_stat busy_env ''/sys/module/foo/initstate'' = Inr \<lparr>st_isdir = False, st_size = 4096\<rparr>"
    by (simp_all add: busy_env_def bare_env_def)
  have "kmod_module_get_initstate busy_env named_state (Some 0)
      = Some (named_state\<lparr>errno := EMFILE\<rparr>, Inr KMOD_MODULE_BUILTIN)"
    unfolding get_initstate_outcome [OF named_state_facts] e by simp
  then show ?thesis using e by simp
qed


section \<open>Holders and sections: entries that fail\<close>

lemma alloc_request_plenty [simp]: "allocs s = [] \<Longrightarrow> alloc_request s = (s, True)"
  by (simp add: alloc_request_def)

lemma sections_loop_append:
  "sections_loop e s dn (xs @ ys) l =
     (case sections_loop e s dn xs l of
        None \<Rightarrow> None
      | Some (s', l') \<Rightarrow> sections_loop e s' dn ys l')"
  by (induction e s dn xs l rule: sections_loop.induct)
     (simp_all add: Let_def split: prod.splits)

lemma sections_loop_skip:
  assumes "\<not> dot_or_dotdot d"
    and "env_open e (entry_path dn d) \<noteq> None \<or> fst (env_read_str_ulong e (entry_path dn d) 16) < 0"
  shows "\<exists>s'. sections_loop e s dn (d # ds) l = sections_loop e s' dn ds l \<and>
     fds s' = fds s \<and> allocs s' = allocs s \<and> mods s' = mods s"
proof (cases "env_open e (entry_path dn d)")
  case (Some en)
  then have "sections_loop e s dn (d # ds) l = sections_loop e (s\<lparr>errno := en\<rparr>) dn ds l"
    using assms(1) by (simp add: sys_open_def)
  then show ?thesis by force
next
  case None
  let ?fd = "fresh_fd (fds s)"
  have op: "sys_open e s (entry_path dn d) = (s\<lparr>fds := ?fd # fds s\<rparr>, int ?fd)"
    using None by (simp add: sys_open_def Let_def)
  have cl: "sys_close (s\<lparr>fds := ?fd # fds s\<rparr>) (int ?fd) = s"
    using fresh_fd_fresh [of "fds s"] by (simp add: sys_close_def)
  obtain err addr where rd: "env_read_str_ulong e (entry_path dn d) 16 = (err, addr)"
    by (cases "env_read_str_ulong e (entry_path dn d) 16")
  then have "err < 0" using assms(2) None by simp
  then have "sections_loop e s dn (d # ds) l = sections_loop e s dn ds l"
    using assms(1) by (simp add: op cl rd)
  then show ?thesis by blast
qed

lemma sections_loop_all:
  assumes "allocs s = []"
  shows "\<exists>s'. sections_loop e s dn entries l = Some (s', l @ readable_sections e dn entries) \<and>
     fds s' = fds s \<and> allocs s' = [] \<and> mods s' = mods s"
  using assms
proof (induction entries arbitrary: s l)
  case Nil
  then show ?case by (simp add: readable_sections_def)
next
  case (Cons d ds)
  show ?case
  proof (cases "dot_or_dotdot d")
    case True
    then show ?thesis using Cons.IH [OF Cons.prems, of l] by (simp add: readable_sections_def)
  next
    case nd: False
    show ?thesis
    proof (cases "env_open e (entry_path dn d)")
      case (Some en)
      have "allocs (s\<lparr>errno := en\<rparr>) = []" using Cons.prems by simp
      from Cons.IH [OF this, of l] show ?thesis
        using nd Some by (simp add: readable_sections_def sys_open_def)
    next
      case None
      let ?fd = "fresh_fd (fds s)"
      have op: "sys_open e s (entry_path dn d) = (s\<lparr>fds := ?fd # fds s\<rparr>, int ?fd)"
        using None by (simp add: sys_open_def Let_def)
      have cl: "sys_close (s\<lparr>fds := ?fd # fds s\<rparr>) (int ?fd) = s"
        using fresh_fd_fresh [of "fds s"] by (simp add: sys_close_def)
      obtain err addr where rd: "env_read_str_ulong e (entry_path dn d) 16 = (err, addr)"
        by (cases "env_read_str_ulong e (entry_path dn d) 16")
      show ?thesis
      proof (cases "err < 0")
        case True
        then show ?thesis
          using nd None rd Cons.IH [OF Cons.prems, of l]
          by (simp add: readable_sections_def op cl)
      next
        case False
        have al: "alloc_request (s\<lparr>fds := ?fd # fds s\<rparr>) = (s\<lparr>fds := ?fd # fds s\<rparr>, True)"
          using Cons.prems by simp
        have ap: "kmod_list_append (s\<lparr>fds := ?fd # fds s\<rparr>) l \<lparr>address = addr, section_name = d\<rparr>
            = (s\<lparr>fds := ?fd # fds s\<rparr>, l @ [\<lparr>address = addr, section_name = d\<rparr>])"
          by (simp add: kmod_list_append_def al)
        show ?thesis
          using nd None rd False Cons.IH [OF Cons.prems, of "l @ [\<lparr>address = addr, section_name = d\<rparr>]"]
          by (simp add: readable_sections_def op cl al ap)
      qed
    qed
  qed
qed

lemma holders_loop_append:
  "holders_loop s c (xs @ ys) l =
     (case holders_loop s c xs l of
        None \<Rightarrow> None
      | Some (s', l') \<Rightarrow> holders_loop s' c ys l')"
  by (induction s c xs l rule: holders_loop.induct)
     (simp_all add: Let_def split: prod.splits option.splits)

lemma holders_loop_skip:
  assumes "\<not> dot_or_dotdot d"
    and "kmod_module_new_from_name s c (Some d) = (s1, err, h)" and "err < 0"
  shows "holders_loop s c (d # ds) l = holders_loop s1 c ds l"
  using assms by simp

lemma new_from_name_plenty:
  assumes "allocs s = []"
  shows "kmod_module_new_from_name s (Some ca) (Some d) =
     (s\<lparr>ctx_refs := (ctx_refs s)(ca := ctx_refs s ca + 1),
        mods := mods s @ [Some (holder_of (Some ca) d)]\<rparr>, 0, Some (length (mods s)))"
  using assms
  by (simp add: kmod_module_new_from_name_def kmod_ref_def strdup_def holder_of_def)

lemma upt_shift: "[n ..< n + Suc k] = n # [Suc n ..< Suc n + k]"
  by (subst upt_rec) simp

lemma holders_loop_all:
  assumes "allocs s = []"
  shows "\<exists>s'. holders_loop s (Some ca) entries l =
       Some (s', l @ [length (mods s) ..< length (mods s) + length (filter (\<lambda>d. \<not> dot_or_dotdot d) entries)]) \<and>
     mods s' = mods s @ map (\<lambda>d. Some (holder_of (Some ca) d)) (filter (\<lambda>d. \<not> dot_or_dotdot d) entries) \<and>
     fds s' = fds s \<and> allocs s' = []"
  using assms
proof (induction entries arbitrary: s l)
  case Nil
  then show ?case by simp
next
  case (Cons d ds)
  show ?case
  proof (cases "dot_or_dotdot d")
    case True
    then show ?thesis using Cons.IH [OF Cons.prems, of l] by simp
  next
    case False
    let ?s1 = "s\<lparr>ctx_refs := (ctx_refs s)(ca := ctx_refs s ca + 1),
        mods := mods s @ [Some (holder_of (Some ca) d)]\<rparr>"
    let ?k = "length (filter (\<lambda>d. \<not> dot_or_dotdot d) ds)"
    have a1: "allocs ?s1 = []" using Cons.prems by simp
    have ap: "kmod_list_append ?s1 l (length (mods s)) = (?s1, l @ [length (mods s)])"
      using a1 by (simp add: kmod_list_append_def)
    obtain s' where s': "holders_loop ?s1 (Some ca) ds (l @ [length (mods s)]) =
        Some (s', (l @ [length (mods s)]) @ [length (mods ?s1) ..< length (mods ?s1) + ?k])"
      "mods s' = mods ?s1 @ map (\<lambda>d. Some (holder_of (Some ca) d)) (filter (\<lambda>d. \<not> dot_or_dotdot d) ds)"
      "fds s' = fds ?s1" "allocs s' = []"
      using Cons.IH [OF a1, of "l @ [length (mods s)]"] by blast
    have hl: "holders_loop s (Some ca) (d # ds) l = holders_loop ?s1 (Some ca) ds (l @ [length (mods s)])"
      using False by (simp add: new_from_name_plenty [OF Cons.prems] ap)
    have "(l @ [length (mods s)]) @ [length (mods ?s1) ..< length (mods ?s1) + ?k]
        = l @ [length (mods s) ..< length (mods s) + Suc ?k]"
      unfolding upt_shift by simp
    then have "holders_loop s (Some ca) (d # ds) l = Some (s', l @ [length (mods s) ..< length (mods s) + Suc ?k])"
      using hl s'(1) by simp
    then show ?thesis
      using False s'(2,3,4) by simp
  qed
qed

lemma holders_opendir:
  assumes "cell s p = Some m" and "name m = Some nm"
  shows "kmod_module_get_holders e s (Some p) =
     (case sys_opendir e s (fst (snprintf PATH_MAX (''/sys/module/'' @ nm @ ''/holders''))) of
        (s1, None) \<Rightarrow> Some (s1, [])
      | (s1, Some (dfd, entries)) \<Rightarrow>
          (case holders_loop s1 (ctx m) entries [] of
             None \<Rightarrow> None
           | Some (s2, l) \<Rightarrow> Some (sys_close s2 dfd, l)))"
  by (simp only: kmod_module_get_holders_def assms option.case Let_def)

lemma sections_opendir:
  assumes "cell s p = Some m" and "name m = Some nm"
  shows "kmod_module_get_sections e s (Some p) =
     (case sys_opendir e s (fst (snprintf PATH_MAX (''/sys/module/'' @ nm @ ''/sections''))) of
        (s1, None) \<Rightarrow> Some (s1, [])
      | (s1, Some (dfd, entries)) \<Rightarrow>
          (case sections_loop e s1 (fst (snprintf PATH_MAX (''/sys/module/'' @ nm @ ''/sections''))) entries [] of
             None \<Rightarrow> None
           | Some (s2, l) \<Rightarrow> Some (sys_close s2 dfd, l)))"
  by (simp only: kmod_module_get_sections_def assms option.case Let_def)

lemma opendir_failed:
  "env_opendir e dn = Inl en \<Longrightarrow> sys_opendir e s dn = (s\<lparr>errno := en\<rparr>, None)"
  by (simp add: sys_opendir_def)

lemma opendir_opened:
  "env_opendir e dn = Inr entries \<Longrightarrow>
   sys_opendir e s dn = (s\<lparr>fds := fresh_fd (fds s) # fds s\<rparr>, Some (int (fresh_fd (fds s)), entries))"
  by (simp add: sys_opendir_def Let_def)

lemma closedir_restores:
  "fds s2 = fresh_fd (fds s) # fds s \<Longrightarrow> fds (sys_close s2 (int (fresh_fd (fds s)))) = fds s"
  using fresh_fd_fresh [of "fds s"] by (simp add: sys_close_def)

lemma sections_enumerated:
  assumes "cell s p = Some m" and "name m = Some nm"
    and "dn = fst (snprintf PATH_MAX (''/sys/module/'' @ nm @ ''/sections''))"
    and "env_opendir e dn = Inr entries" and "allocs s = []"
  shows "\<exists>s'. kmod_module_get_sections e s (Some p) = Some (s', readable_sections e dn entries) \<and>
     fds s' = fds s"
proof -
  let ?s1 = "s\<lparr>fds := fresh_fd (fds s) # fds s\<rparr>"
  have "allocs ?s1 = []" using assms(5) by simp
  then obtain s2 where s2: "sections_loop e ?s1 dn entries [] = Some (s2, [] @ readable_sections e dn entries)"
    "fds s2 = fds ?s1"
    using sections_loop_all [of ?s1 e dn entries "[]"] by blast
  have "fds (sys_close s2 (int (fresh_fd (fds s)))) = fds s"
    using s2(2) by (intro closedir_restores) simp
  then show ?thesis
    unfolding sections_opendir [OF assms(1,2)] assms(3) [symmetric]
    by (simp add: opendir_opened [OF assms(4)] s2(1))
qed

lemma holders_enumerated:
  assumes "cell s p = Some m" and "name m = Some nm" and "ctx m = Some ca"
    and "dn = fst (snprintf PATH_MAX (''/sys/module/'' @ nm @ ''/holders''))"
    and "env_opendir e dn = Inr entries" and "allocs s = []"
  shows "\<exists>s' l. kmod_module_get_holders e s (Some p) = Some (s', l) \<and>
     map (cell s') l = map (\<lambda>d. Some (holder_of (Some ca) d)) (filter (\<lambda>d. \<not> dot_or_dotdot d) entries) \<and>
     fds s' = fds s"
proof -
  let ?s1 = "s\<lparr>fds := fresh_fd (fds s) # fds s\<rparr>"
  let ?ents = "filter (\<lambda>d. \<not> dot_or_dotdot d) entries"
  let ?l = "[length (mods s) ..< length (mods s) + length ?ents]"
  have "allocs ?s1 = []" using assms(6) by simp
  then obtain s2 where s2: "holders_loop ?s1 (Some ca) entries [] = Some (s2, [] @ [length (mods ?s1) ..< length (mods ?s1) + length ?ents])"
    "mods s2 = mods ?s1 @ map (\<lambda>d. Some (holder_of (Some ca) d)) ?ents"
    "fds s2 = fds ?s1"
    using holders_loop_all [of ?s1 ca entries "[]"] by blast
  let ?s' = "sys_close s2 (int (fresh_fd (fds s)))"
  have f: "fds ?s' = fds s"
    using s2(3) by (intro closedir_restores) simp
  have m: "mods ?s' = mods s @ map (\<lambda>d. Some (holder_of (Some ca) d)) ?ents"
    using s2(2) by (simp add: sys_close_def)
  have "map (cell ?s') ?l = map (\<lambda>d. Some (holder_of (Some ca) d)) ?ents"
    by (rule nth_equalityI) (simp_all add: cell_def m nth_append)
  moreover have "kmod_module_get_holders e s (Some p) = Some (?s', ?l)"
    unfolding holders_opendir [OF assms(1,2)] assms(4) [symmetric]
    using s2(1) by (simp add: opendir_opened [OF assms(5)] assms(3))
  ultimately show ?thesis using f by blast
qed

text \<open>
  C8. When the directory cannot be opened, \<open>kmod_module_get_holders\<close> and
  \<open>kmod_module_get_sections\<close> return NULL. When it can, and memory is not short, the
  sections returned are those of the entries other than \<open>.\<close> and \<open>..\<close> whose file opens
  and holds a number, in the order of the directory, the others being skipped; the
  holders returned are handles for all entries other than \<open>.\<close> and \<open>..\<close>, in that
  order. In both loops, whatever the allocator does, an entry that fails (the handle
  cannot be constructed; the file cannot be opened or read) leaves the list as it was,
  and the entries after it are processed as they would be without it. No descriptor
  remains open.
\<close>

theorem enumeration_skips_failed_entries:
  assumes "cell s p = Some m" and "name m = Some nm"
    and "hn = fst (snprintf PATH_MAX (''/sys/module/'' @ nm @ ''/holders''))"
    and "sn = fst (snprintf PATH_MAX (''/sys/module/'' @ nm @ ''/sections''))"
  shows "(\<forall>en. env_opendir e hn = Inl en \<longrightarrow>
        kmod_module_get_holders e s (Some p) = Some (s\<lparr>errno := en\<rparr>, [])) \<and>
     (\<forall>en. env_opendir e sn = Inl en \<longrightarrow>
        kmod_module_get_sections e s (Some p) = Some (s\<lparr>errno := en\<rparr>, [])) \<and>
     (\<forall>entries. env_opendir e sn = Inr entries \<and> allocs s = [] \<longrightarrow>
        (\<exists>s'. kmod_module_get_sections e s (Some p) = Some (s', readable_sections e sn entries) \<and>
              fds s' = fds s)) \<and>
     (\<forall>entries ca. env_opendir e hn = Inr entries \<and> allocs s = [] \<and> ctx m = Some ca \<longrightarrow>
        (\<exists>s' l. kmod_module_get_holders e s (Some p) = Some (s', l) \<and>
           map (cell s') l = map (\<lambda>d. Some (holder_of (Some ca) d))
                               (filter (\<lambda>d. \<not> dot_or_dotdot d) entries) \<and>
           fds s' = fds s)) \<and>
     (\<forall>t c pre d post l t1 l1 t2 err h.
        holders_loop t c pre l = Some (t1, l1) \<and> \<not> dot_or_dotdot d \<and>
        kmod_module_new_from_name t1 c (Some d) = (t2, err, h) \<and> err < 0 \<longrightarrow>
        holders_loop t c (pre @ d # post) l = holders_loop t2 c post l1) \<and>
     (\<forall>t dn pre d post l t1 l1.
        sections_loop e t dn pre l = Some (t1, l1) \<and> \<not> dot_or_dotdot d \<and>
        (env_open e (entry_path dn d) \<noteq> None \<or> fst (env_read_str_ulong e (entry_path dn d) 16) < 0) \<longrightarrow>
        (\<exists>t2. sections_loop e t dn (pre @ d # post) l = sections_loop e t2 dn post l1 \<and>
              fds t2 = fds t1 \<and> allocs t2 = allocs t1 \<and> mods t2 = mods t1))"
proof (intro conjI allI impI)
  fix en assume "env_opendir e hn = Inl en"
  then show "kmod_module_get_holders e s (Some p) = Some (s\<lparr>errno := en\<rparr>, [])"
    unfolding holders_opendir [OF assms(1,2)] assms(3) [symmetric]
    by (simp add: opendir_failed)
next
  fix en assume "env_opendir e sn = Inl en"
  then show "kmod_module_get_sections e s (Some p) = Some (s\<lparr>errno := en\<rparr>, [])"
    unfolding sections_opendir [OF assms(1,2)] assms(4) [symmetric]
    by (simp add: opendir_failed)
next
  fix entries assume "env_opendir e sn = Inr entries \<and> allocs s = []"
  then show "\<exists>s'. kmod_module_get_sections e s (Some p) = Some (s', readable_sections e sn entries) \<and>
              fds s' = fds s"
    using sections_enumerated [OF assms(1,2,4)] by blast
next
  fix entries ca assume "env_opendir e hn = Inr entries \<and> allocs s = [] \<and> ctx m = Some ca"
  then show "\<exists>s' l. kmod_module_get_holders e s (Some p) = Some (s', l) \<and>
           map (cell s') l = map (\<lambda>d. Some (holder_of (Some ca) d))
                               (filter (\<lambda>d. \<not> dot_or_dotdot d) entries) \<and>
           fds s' = fds s"
    using holders_enumerated [OF assms(1,2) _ assms(3)] by blast
next
  fix t c pre d post l t1 l1 t2 err h
  assume a: "holders_loop t c pre l = Some (t1, l1) \<and> \<not> dot_or_dotdot d \<and>
        kmod_module_new_from_name t1 c (Some d) = (t2, err, h) \<and> err < 0"
  then have "holders_loop t1 c (d # post) l1 = holders_loop t2 c post l1"
    by (intro holders_loop_skip) auto
  then show "holders_loop t c (pre @ d # post) l = holders_loop t2 c post l1"
    using a by (simp add: holders_loop_append)
next
  fix t dn pre d post l t1 l1
  assume a: "sections_loop e t dn pre l = Some (t1, l1) \<and> \<not> dot_or_dotdot d \<and>
        (env_open e (entry_path dn d) \<noteq> None \<or> fst (env_read_str_ulong e (entry_path dn d) 16) < 0)"
  then obtain t2 where "sections_loop e t1 dn (d # post) l1 = sections_loop e t2 dn post l1"
    "fds t2 = fds t1" "allocs t2 = allocs t1" "mods t2 = mods t1"
    using sections_loop_skip [of d e dn t1 post l1] by blast
  then show "\<exists>t2. sections_loop e t dn (pre @ d # post) l = sections_loop e t2 dn post l1 \<and>
              fds t2 = fds t1 \<and> allocs t2 = allocs t1 \<and> mods t2 = mods t1"
    using a by (auto simp add: sections_loop_append)
qed

theorem enumeration_skips_failed_entries_witness:
  "map_option snd (kmod_module_get_sections sysfs_env named_state (Some 0))
     = Some [\<lparr>address = 30, section_name = ''.text''\<rparr>, \<lparr>address = 29, section_name = ''.bss''\<rparr>] \<and>
   (\<exists>s' l. kmod_module_get_holders sysfs_env named_state (Some 0) = Some (s', l) \<and>
      map (\<lambda>a. map_option name (cell s' a)) l = [Some (Some ''bar''), Some (Some ''baz'')]) \<and>
   kmod_module_get_sections bare_env named_state (Some 0) = Some (named_state\<lparr>errno := ENOENT\<rparr>, [])"
proof -
  have d: "''/sys/module/foo/holders'' = fst (snprintf PATH_MAX (''/sys/module/'' @ ''foo'' @ ''/holders''))"
    "''/sys/module/foo/sections'' = fst (snprintf PATH_MAX (''/sys/module/'' @ ''foo'' @ ''/sections''))"
    by (simp_all add: snprintf_def PATH_MAX_def)
  note th = enumeration_skips_failed_entries [OF named_state_facts(1,2) d]
  have a: "allocs named_state = []" "ctx named_handle = Some 0"
    by (simp_all add: named_state_def init_state_def named_handle_def)
  have o: "env_opendir sysfs_env ''/sys/module/foo/sections'' = Inr [''.'', ''..'', ''.text'', ''.data'', ''.bss'']"
    "env_opendir sysfs_env ''/sys/module/foo/holders'' = Inr [''.'', ''bar'', ''..'', ''baz'']"
    "env_opendir bare_env ''/sys/module/foo/sections'' = Inl ENOENT"
    by (simp_all add: sysfs_env_def bare_env_def)
  have rs: "readable_sections sysfs_env ''/sys/module/foo/sections'' [''.'', ''..'', ''.text'', ''.data'', ''.bss'']
      = [\<lparr>address = 30, section_name = ''.text''\<rparr>, \<lparr>address = 29, section_name = ''.bss''\<rparr>]"
    by (simp add: readable_sections_def dot_or_dotdot_def cbuf_of_def peek_def NUL_def
        entry_path_def sysfs_env_def bare_env_def)
  have fl: "filter (\<lambda>d. \<not> dot_or_dotdot d) [''.'', ''bar'', ''..'', ''baz''] = [''bar'', ''baz'']"
    by (simp add: dot_or_dotdot_def cbuf_of_def peek_def NUL_def)
  have 1: "map_option snd (kmod_module_get_sections sysfs_env named_state (Some 0))
     = Some [\<lparr>address = 30, section_name = ''.text''\<rparr>, \<lparr>address = 29, section_name = ''.bss''\<rparr>]"
    using th [of sysfs_env, THEN conjunct2, THEN conjunct2, THEN conjunct1, rule_format, of "[''.'', ''..'', ''.text'', ''.data'', ''.bss'']"]
      o(1) a(1) rs by auto
  obtain s' l where hl: "kmod_module_get_holders sysfs_env named_state (Some 0) = Some (s', l)"
    "map (cell s') l = map (\<lambda>d. Some (holder_of (Some 0) d)) [''bar'', ''baz'']"
    using th [of sysfs_env, THEN conjunct2, THEN conjunct2, THEN conjunct2, THEN conjunct1, rule_format,
        of "[''.'', ''bar'', ''..'', ''baz'']" 0] o(2) a fl by auto
  have "map (\<lambda>a. map_option name (cell s' a)) l = map (map_option name) (map (cell s') l)"
    by simp
  also have "\<dots> = [Some (Some ''bar''), Some (Some ''baz'')]"
    unfolding hl(2) by (simp add: holder_of_def)
  finally have nm: "map (\<lambda>a. map_option name (cell s' a)) l = [Some (Some ''bar''), Some (Some ''baz'')]" .
  have 2: "\<exists>s' l. kmod_module_get_holders sysfs_env named_state (Some 0) = Some (s', l) \<and>
      map (\<lambda>a. map_option name (cell s' a)) l = [Some (Some ''bar''), Some (Some ''baz'')]"
    using hl(1) nm by (intro exI [of _ s'] exI [of _ l] conjI)
  have 3: "kmod_module_get_sections bare_env named_state (Some 0) = Some (named_state\<lparr>errno := ENOENT\<rparr>, [])"
    using th [of bare_env, THEN conjunct2, THEN conjunct1, rule_format, of ENOENT] o(3) by simp
  show ?thesis using 1 2 3 by blast
qed


section \<open>Reference counts\<close>

lemma sint_dec:
  fixes x :: "32 word"
  assumes "1 \<le> sint x"
  shows "sint (x - 1) = sint x - 1"
proof -
  have b: "sint x < 2 ^ 31" using sint_lt [of x] by simp
  have "sint (x - 1) = signed_take_bit 31 (sint x - sint (1 :: 32 word))"
    using sint_word_ariths(2) [of x 1] by simp
  also have "\<dots> = signed_take_bit 31 (sint x - 1)" by simp
  also have "\<dots> = sint x - 1"
    using assms b by (intro signed_take_bit_int_eq_self) auto
  finally show ?thesis .
qed

lemma sint_inc:
  fixes x :: "32 word"
  assumes "sint x < 2 ^ 31 - 1"
  shows "sint (x + 1) = sint x + 1"
proof -
  have b: "- (2 ^ 31) \<le> sint x" using sint_ge [of x] by simp
  have "sint (x + 1) = signed_take_bit 31 (sint x + sint (1 :: 32 word))"
    using sint_word_ariths(1) [of x 1] by simp
  also have "\<dots> = signed_take_bit 31 (sint x + 1)" by simp
  also have "\<dots> = sint x + 1"
    using assms b by (intro signed_take_bit_int_eq_self) auto
  finally show ?thesis .
qed

lemma cell_set_cell:
  "cell (set_cell s p v) a = (if a = p \<and> p < length (mods s) then v else cell s a)"
  by (simp add: cell_def set_cell_def)

lemma cell_live: "cell s p = Some m \<Longrightarrow> p < length (mods s)"
  by (simp add: cell_def split: if_splits)

lemma cell_kmod_unref [simp]: "cell (kmod_unref s c) a = cell s a"
  by (simp add: cell_def kmod_unref_def split: option.splits)

lemma mods_kmod_unref [simp]: "mods (kmod_unref s c) = mods s"
  by (simp add: kmod_unref_def split: option.splits)

lemma length_set_cell [simp]: "length (mods (set_cell s p v)) = length (mods s)"
  by (simp add: set_cell_def)

lemma ctx_refs_set_cell [simp]: "ctx_refs (set_cell s p v) = ctx_refs s"
  by (simp add: set_cell_def)

lemma ctx_refs_kmod_unref:
  "ctx_refs (kmod_unref s c) a = ctx_refs s a - (if c = Some a then 1 else 0)"
  by (simp add: kmod_unref_def split: option.splits)

lemma same_frame_refl [simp]: "same_frame s s"
  by (simp add: same_frame_def)

lemma same_frame_trans: "same_frame s s' \<Longrightarrow> same_frame s' s'' \<Longrightarrow> same_frame s s''"
  by (simp add: same_frame_def)

lemma same_frame_set_cell [simp]: "same_frame s (set_cell s p v)"
  by (simp add: same_frame_def set_cell_def)

lemma same_frame_kmod_unref [simp]: "same_frame s (kmod_unref s c)"
  by (simp add: same_frame_def kmod_unref_def split: option.splits)

lemma unref_rec_leaf:
  assumes "cell s d = Some md" and "dep md = []"
  shows "\<exists>s'. unref_rec (Suc k) s (Some d) =
        Some (s', if still_referenced md then Some d else None) \<and>
     cell s' d = (if still_referenced md then Some (md\<lparr>refcount := refcount md - 1\<rparr>) else None) \<and>
     (\<forall>a. a \<noteq> d \<longrightarrow> cell s' a = cell s a) \<and>
     (\<forall>c. ctx_refs s' c = ctx_refs s c - (if \<not> still_referenced md \<and> ctx md = Some c then 1 else 0)) \<and>
     same_frame s s'"
proof (cases "still_referenced md")
  case True
  then show ?thesis
    using assms cell_live [OF assms(1)]
    by (simp add: still_referenced_def cell_set_cell)
next
  case False
  let ?s1 = "set_cell s d (Some (md\<lparr>refcount := refcount md - 1\<rparr>))"
  let ?s' = "set_cell (kmod_unref ?s1 (ctx md)) d None"
  have c1: "cell ?s1 d = Some (md\<lparr>refcount := refcount md - 1\<rparr>)"
    using cell_live [OF assms(1)] by (simp add: cell_set_cell)
  have r: "unref_rec (Suc k) s (Some d) = Some (?s', None)"
    using assms False c1 by (simp add: still_referenced_def)
  have "same_frame s ?s'"
    by (meson same_frame_trans same_frame_set_cell same_frame_kmod_unref)
  then show ?thesis
    using False r cell_live [OF assms(1)]
    by (simp add: cell_set_cell ctx_refs_kmod_unref)
qed

lemma unref_list_leaves:
  assumes "distinct ds" and "\<forall>d \<in> set ds. leaf s d"
  shows "\<exists>s'. unref_list_rec (Suc k) s ds = Some s' \<and>
     (\<forall>d \<in> set ds. cell s' d = released s d) \<and>
     (\<forall>a. a \<notin> set ds \<longrightarrow> cell s' a = cell s a) \<and>
     (\<forall>c. ctx_refs s' c = ctx_refs s c - int (length (filter (gives_back s c) ds))) \<and>
     same_frame s s'"
  using assms
proof (induction ds arbitrary: s)
  case Nil
  show ?case by simp
next
  case (Cons d ds)
  from Cons.prems obtain md where md: "cell s d = Some md" "dep md = []"
    by (auto simp: leaf_def split: option.splits)
  obtain s1 where s1: "unref_rec (Suc k) s (Some d) =
        Some (s1, if still_referenced md then Some d else None)"
     "cell s1 d = (if still_referenced md then Some (md\<lparr>refcount := refcount md - 1\<rparr>) else None)"
     "\<forall>a. a \<noteq> d \<longrightarrow> cell s1 a = cell s a"
     "\<forall>c. ctx_refs s1 c = ctx_refs s c - (if \<not> still_referenced md \<and> ctx md = Some c then 1 else 0)"
     "same_frame s s1"
    using unref_rec_leaf [OF md, of k] by blast
  have nd: "d \<notin> set ds" and dd: "distinct ds" using Cons.prems(1) by simp_all
  have same: "\<forall>a \<in> set ds. cell s1 a = cell s a"
    using s1(3) nd by auto
  then have lv: "\<forall>a \<in> set ds. leaf s1 a"
    using Cons.prems(2) by (simp add: leaf_def)
  obtain s' where s': "unref_list_rec (Suc k) s1 ds = Some s'"
     "\<forall>a \<in> set ds. cell s' a = released s1 a"
     "\<forall>a. a \<notin> set ds \<longrightarrow> cell s' a = cell s1 a"
     "\<forall>c. ctx_refs s' c = ctx_refs s1 c - int (length (filter (gives_back s1 c) ds))"
     "same_frame s1 s'"
    using Cons.IH [OF dd lv] by blast
  have rl: "\<forall>a \<in> set ds. released s1 a = released s a"
    using same by (simp add: released_def)
  have gb: "\<And>c. filter (gives_back s1 c) ds = filter (gives_back s c) ds"
    using same by (intro filter_cong) (simp_all add: gives_back_def)
  have 1: "unref_list_rec (Suc k) s (d # ds) = Some s'"
    using s1(1) s'(1) by simp
  have 2: "\<forall>a \<in> set (d # ds). cell s' a = released s a"
    using s'(2,3) nd s1(2) rl md(1) by (auto simp: released_def)
  have 3: "\<forall>a. a \<notin> set (d # ds) \<longrightarrow> cell s' a = cell s a"
    using s'(3) s1(3) by auto
  have 4: "\<forall>c. ctx_refs s' c = ctx_refs s c - int (length (filter (gives_back s c) (d # ds)))"
    using s'(4) s1(4) md(1) by (auto simp: gb gives_back_def)
  have 5: "same_frame s s'"
    using s1(5) s'(5) by (rule same_frame_trans)
  show ?case using 1 2 3 4 5 by blast
qed

lemma still_referenced_iff:
  "1 \<le> sint (refcount m) \<Longrightarrow> still_referenced m \<longleftrightarrow> 1 < sint (refcount m)"
  by (simp add: still_referenced_def sint_dec)

lemma last_reference: "refcount m = 1 \<Longrightarrow> \<not> still_referenced m"
  by (simp add: still_referenced_def)

lemma unref_keeps:
  assumes "cell s p = Some m" and "still_referenced m"
  shows "kmod_module_unref s (Some p) =
     Some (set_cell s p (Some (m\<lparr>refcount := refcount m - 1\<rparr>)), Some p)"
  using assms by (simp add: kmod_module_unref_def still_referenced_def)

lemma unref_general:
  assumes "cell s p = Some m" and "\<not> still_referenced m"
    and "kmod_module_unref_list (set_cell s p (Some (m\<lparr>refcount := refcount m - 1\<rparr>))) (dep m) = Some (s2, r)"
    and "cell s2 p = Some m2"
  shows "kmod_module_unref s (Some p) = Some (set_cell (kmod_unref s2 (ctx m2)) p None, None)"
proof -
  have pl: "p < length (mods s)" using assms(1) by (rule cell_live)
  have "unref_list_rec (length (mods s)) (set_cell s p (Some (m\<lparr>refcount := refcount m - 1\<rparr>))) (dep m) = Some s2"
    using assms(3) by (simp add: kmod_module_unref_list_def split: option.splits)
  then show ?thesis
    using assms(1,2,4) by (simp add: kmod_module_unref_def still_referenced_def)
qed

lemma unref_destroys:
  assumes "cell s p = Some m" and "\<not> still_referenced m"
    and "distinct (dep m)" and "p \<notin> set (dep m)" and "\<forall>d \<in> set (dep m). leaf s d"
  shows "\<exists>s'. kmod_module_unref s (Some p) = Some (s', None) \<and>
     cell s' p = None \<and>
     (\<forall>d \<in> set (dep m). cell s' d = released s d) \<and>
     (\<forall>a. a \<noteq> p \<and> a \<notin> set (dep m) \<longrightarrow> cell s' a = cell s a) \<and>
     (\<forall>c. ctx_refs s' c = ctx_refs s c - (if ctx m = Some c then 1 else 0)
                             - int (length (filter (gives_back s c) (dep m)))) \<and>
     same_frame s s'"
proof -
  let ?m1 = "m\<lparr>refcount := refcount m - 1\<rparr>"
  let ?s1 = "set_cell s p (Some ?m1)"
  have pl: "p < length (mods s)" using assms(1) by (rule cell_live)
  then obtain k where k: "length (mods s) = Suc k" by (cases "length (mods s)") auto
  have c1: "cell ?s1 p = Some ?m1" using pl by (simp add: cell_set_cell)
  have same: "\<forall>a \<in> set (dep m). cell ?s1 a = cell s a"
    using assms(4) by (auto simp: cell_set_cell)
  then have lv: "\<forall>a \<in> set (dep m). leaf ?s1 a"
    using assms(5) by (simp add: leaf_def)
  obtain s2 where s2: "unref_list_rec (Suc k) ?s1 (dep m) = Some s2"
     "\<forall>a \<in> set (dep m). cell s2 a = released ?s1 a"
     "\<forall>a. a \<notin> set (dep m) \<longrightarrow> cell s2 a = cell ?s1 a"
     "\<forall>c. ctx_refs s2 c = ctx_refs ?s1 c - int (length (filter (gives_back ?s1 c) (dep m)))"
     "same_frame ?s1 s2"
    using unref_list_leaves [OF assms(3) lv, of k] by blast
  have rl: "\<forall>a \<in> set (dep m). released ?s1 a = released s a"
    using same by (simp add: released_def)
  have gb: "\<And>c. filter (gives_back ?s1 c) (dep m) = filter (gives_back s c) (dep m)"
    using same by (intro filter_cong) (simp_all add: gives_back_def)
  have c2: "cell s2 p = Some ?m1" using s2(3) assms(4) c1 by simp
  have len: "length (mods s2) = length (mods s)"
    using s2(5) by (simp add: same_frame_def)
  let ?s' = "set_cell (kmod_unref s2 (ctx m)) p None"
  have r: "kmod_module_unref s (Some p) = Some (?s', None)"
    using assms(1,2) s2(1) c2
    by (simp add: kmod_module_unref_def k still_referenced_def)
  have f: "same_frame s ?s'"
    using s2(5) by (simp add: same_frame_def set_cell_def kmod_unref_def split: option.splits)
  have 1: "cell ?s' p = None" using pl len by (simp add: cell_set_cell)
  have 2: "\<forall>d \<in> set (dep m). cell ?s' d = released s d"
    using s2(2) rl assms(4) by (auto simp: cell_set_cell)
  have 3: "\<forall>a. a \<noteq> p \<and> a \<notin> set (dep m) \<longrightarrow> cell ?s' a = cell s a"
    using s2(3) by (simp add: cell_set_cell)
  have 4: "\<forall>c. ctx_refs ?s' c = ctx_refs s c - (if ctx m = Some c then 1 else 0)
                             - int (length (filter (gives_back s c) (dep m)))"
    using s2(4) by (simp add: gb ctx_refs_kmod_unref)
  show ?thesis using r 1 2 3 4 f by blast
qed

lemma new_from_name_result:
  assumes "kmod_module_new_from_name s c nm = (s', err, h)"
  shows "(err = - ENOENT \<and> (c = None \<or> nm = None) \<and> s' = s \<and> h = None) \<or>
     (err = - ENOMEM \<and> c \<noteq> None \<and> nm \<noteq> None \<and> \<not> snd (alloc_request s) \<and>
        s' = fst (alloc_request s) \<and> h = None) \<or>
     (err = 0 \<and> c \<noteq> None \<and> nm \<noteq> None \<and> snd (alloc_request s) \<and> h = Some (length (mods s)) \<and>
        (\<exists>nm'. mods s' = mods s @ [Some \<lparr>ctx = c, path = None, name = nm', dep = [],
                                         refcount = 1, init_dep = False\<rparr>]) \<and>
        ctx_refs s' = ctx_refs (kmod_ref s c) \<and> fds s' = fds s \<and> maps s' = maps s)"
  using assms
  by (auto simp: kmod_module_new_from_name_def alloc_request_def strdup_def kmod_ref_def Let_def
      split: if_splits list.splits prod.splits option.splits)

lemma new_from_path_result:
  assumes "kmod_module_new_from_path e s c pth = (s', err, h)"
  shows "(h = None \<and> mods s' = mods s \<and> ctx_refs s' = ctx_refs s) \<or>
     (err = 0 \<and> c \<noteq> None \<and> pth \<noteq> None \<and> snd (alloc_request s) \<and> h = Some (length (mods s)) \<and>
        (\<exists>st. env_stat e (the pth) = Inr st) \<and>
        (\<exists>pth'. mods s' = mods s @ [Some \<lparr>ctx = c, path = pth', name = None, dep = [],
                                         refcount = 1, init_dep = False\<rparr>]) \<and>
        ctx_refs s' = ctx_refs (kmod_ref s c) \<and> fds s' = fds s \<and> maps s' = maps s)"
  using assms
  by (auto simp: kmod_module_new_from_path_def sys_stat_def alloc_request_def strdup_def
      kmod_ref_def Let_def ENOMEM_def
      split: if_splits list.splits prod.splits option.splits sum.splits)

text \<open>
  C2. On NULL, \<open>kmod_module_ref\<close> and \<open>kmod_module_unref\<close> do nothing. A handle that
  \<open>kmod_module_new_from_name\<close> or \<open>kmod_module_new_from_path\<close> returns is a new cell
  with \<open>refcount\<close> 1 that holds one more reference to the context; the constructors
  succeed when the arguments are given, the path exists and memory is to be had. On a
  live handle, \<open>kmod_module_ref\<close> adds 1 to \<open>refcount\<close> (an increment by exactly 1 as long
  as the count is below \<open>INT_MAX\<close>) and returns the handle. \<open>kmod_module_unref\<close> on a
  handle whose count is above 1 takes 1 off and returns the handle, which stays. On a
  handle whose count is 1 it releases the dependency list, gives the context reference
  back and frees the cell with the strings it owns, returning NULL: whenever the release
  of the list returns, and certainly when the dependencies are distinct handles without
  dependencies of their own, each of which then loses one reference and is freed when
  that was its last one.
\<close>

theorem refcount_lifecycle:
  "kmod_module_ref s None = Some (s, None) \<and>
   kmod_module_unref s None = Some (s, None) \<and>
   (\<forall>s' h. kmod_module_new_from_name s c nm = (s', 0, Some h) \<longrightarrow>
      cell s h = None \<and> ctx_refs s' = ctx_refs (kmod_ref s c) \<and>
      (\<exists>m. cell s' h = Some m \<and> refcount m = 1 \<and> ctx m = c \<and> dep m = [])) \<and>
   (\<forall>s' h. kmod_module_new_from_path e s c pth = (s', 0, Some h) \<longrightarrow>
      cell s h = None \<and> ctx_refs s' = ctx_refs (kmod_ref s c) \<and>
      (\<exists>m. cell s' h = Some m \<and> refcount m = 1 \<and> ctx m = c \<and> dep m = [])) \<and>
   (c \<noteq> None \<and> nm \<noteq> None \<and> snd (alloc_request s) \<longrightarrow>
      (\<exists>s'. kmod_module_new_from_name s c nm = (s', 0, Some (length (mods s))))) \<and>
   (c \<noteq> None \<and> pth \<noteq> None \<and> (\<exists>st. env_stat e (the pth) = Inr st) \<and> snd (alloc_request s) \<longrightarrow>
      (\<exists>s'. kmod_module_new_from_path e s c pth = (s', 0, Some (length (mods s))))) \<and>
   (\<forall>m. cell s p = Some m \<longrightarrow>
      kmod_module_ref s (Some p) = Some (set_cell s p (Some (m\<lparr>refcount := refcount m + 1\<rparr>)), Some p) \<and>
      (sint (refcount m) < 2 ^ 31 - 1 \<longrightarrow> sint (refcount m + 1) = sint (refcount m) + 1) \<and>
      (1 < sint (refcount m) \<longrightarrow>
         kmod_module_unref s (Some p) =
           Some (set_cell s p (Some (m\<lparr>refcount := refcount m - 1\<rparr>)), Some p) \<and>
         sint (refcount m - 1) = sint (refcount m) - 1) \<and>
      (\<forall>s2 r m2. refcount m = 1 \<and>
           kmod_module_unref_list (set_cell s p (Some (m\<lparr>refcount := 0\<rparr>))) (dep m) = Some (s2, r) \<and>
           cell s2 p = Some m2 \<longrightarrow>
         kmod_module_unref s (Some p) = Some (set_cell (kmod_unref s2 (ctx m2)) p None, None)) \<and>
      (refcount m = 1 \<and> distinct (dep m) \<and> p \<notin> set (dep m) \<and> (\<forall>d \<in> set (dep m). leaf s d) \<longrightarrow>
         (\<exists>s'. kmod_module_unref s (Some p) = Some (s', None) \<and>
            cell s' p = None \<and>
            (\<forall>d \<in> set (dep m). cell s' d = released s d) \<and>
            (\<forall>a. a \<noteq> p \<and> a \<notin> set (dep m) \<longrightarrow> cell s' a = cell s a) \<and>
            (\<forall>c'. ctx_refs s' c' = ctx_refs s c' - (if ctx m = Some c' then 1 else 0)
                                    - int (length (filter (gives_back s c') (dep m)))) \<and>
            same_frame s s')))"
proof (intro conjI allI impI)
  show "kmod_module_ref s None = Some (s, None)" by (simp add: kmod_module_ref_def)
  show "kmod_module_unref s None = Some (s, None)" by (simp add: kmod_module_unref_def)
next
  fix s' h assume a: "kmod_module_new_from_name s c nm = (s', 0, Some h)"
  from new_from_name_result [OF a]
  obtain nm' where r: "h = length (mods s)"
    "mods s' = mods s @ [Some \<lparr>ctx = c, path = None, name = nm', dep = [], refcount = 1, init_dep = False\<rparr>]"
    "ctx_refs s' = ctx_refs (kmod_ref s c)"
    by (auto simp: ENOENT_def ENOMEM_def)
  show "cell s h = None" using r(1) by (simp add: cell_def)
  show "ctx_refs s' = ctx_refs (kmod_ref s c)" by (rule r(3))
  show "\<exists>m. cell s' h = Some m \<and> refcount m = 1 \<and> ctx m = c \<and> dep m = []"
    using r(1,2) by (simp add: cell_def)
next
  fix s' h assume a: "kmod_module_new_from_path e s c pth = (s', 0, Some h)"
  from new_from_path_result [OF a]
  obtain pth' where r: "h = length (mods s)"
    "mods s' = mods s @ [Some \<lparr>ctx = c, path = pth', name = None, dep = [], refcount = 1, init_dep = False\<rparr>]"
    "ctx_refs s' = ctx_refs (kmod_ref s c)"
    by auto
  show "cell s h = None" using r(1) by (simp add: cell_def)
  show "ctx_refs s' = ctx_refs (kmod_ref s c)" by (rule r(3))
  show "\<exists>m. cell s' h = Some m \<and> refcount m = 1 \<and> ctx m = c \<and> dep m = []"
    using r(1,2) by (simp add: cell_def)
next
  assume "c \<noteq> None \<and> nm \<noteq> None \<and> snd (alloc_request s)"
  then show "\<exists>s'. kmod_module_new_from_name s c nm = (s', 0, Some (length (mods s)))"
    by (cases "alloc_request s")
       (auto simp: kmod_module_new_from_name_def strdup_def alloc_request_def kmod_ref_def Let_def
          split: prod.splits list.splits if_splits option.splits)
next
  assume "c \<noteq> None \<and> pth \<noteq> None \<and> (\<exists>st. env_stat e (the pth) = Inr st) \<and> snd (alloc_request s)"
  then show "\<exists>s'. kmod_module_new_from_path e s c pth = (s', 0, Some (length (mods s)))"
    by (cases "alloc_request s")
       (auto simp: kmod_module_new_from_path_def sys_stat_def strdup_def alloc_request_def
          kmod_ref_def Let_def
          split: prod.splits list.splits if_splits option.splits)
next
  fix m assume m: "cell s p = Some m"
  show "kmod_module_ref s (Some p) = Some (set_cell s p (Some (m\<lparr>refcount := refcount m + 1\<rparr>)), Some p)"
    using m by (simp add: kmod_module_ref_def)
  show "sint (refcount m + 1) = sint (refcount m) + 1" if "sint (refcount m) < 2 ^ 31 - 1"
    using that by (rule sint_inc)
  {
    assume g: "1 < sint (refcount m)"
    then have "still_referenced m" by (simp add: still_referenced_iff)
    then show "kmod_module_unref s (Some p) =
           Some (set_cell s p (Some (m\<lparr>refcount := refcount m - 1\<rparr>)), Some p)"
      using m by (intro unref_keeps)
    show "sint (refcount m - 1) = sint (refcount m) - 1"
      using g by (intro sint_dec) simp
  }
  {
    fix s2 r m2
    assume a: "refcount m = 1 \<and>
           kmod_module_unref_list (set_cell s p (Some (m\<lparr>refcount := 0\<rparr>))) (dep m) = Some (s2, r) \<and>
           cell s2 p = Some m2"
    then have "kmod_module_unref_list (set_cell s p (Some (m\<lparr>refcount := refcount m - 1\<rparr>))) (dep m) = Some (s2, r)"
      by simp
    then show "kmod_module_unref s (Some p) = Some (set_cell (kmod_unref s2 (ctx m2)) p None, None)"
      using m a by (intro unref_general [where m = m and r = r]) (simp_all add: last_reference)
  }
  {
    assume a: "refcount m = 1 \<and> distinct (dep m) \<and> p \<notin> set (dep m) \<and> (\<forall>d \<in> set (dep m). leaf s d)"
    then show "\<exists>s'. kmod_module_unref s (Some p) = Some (s', None) \<and>
            cell s' p = None \<and>
            (\<forall>d \<in> set (dep m). cell s' d = released s d) \<and>
            (\<forall>a. a \<noteq> p \<and> a \<notin> set (dep m) \<longrightarrow> cell s' a = cell s a) \<and>
            (\<forall>c'. ctx_refs s' c' = ctx_refs s c' - (if ctx m = Some c' then 1 else 0)
                                    - int (length (filter (gives_back s c') (dep m)))) \<and>
            same_frame s s'"
      using m by (intro unref_destroys) (simp_all add: last_reference)
  }
qed

theorem refcount_lifecycle_witness:
  "(\<exists>s'. kmod_module_unref family_state (Some 0) = Some (s', None) \<and>
      cell s' 0 = None \<and> cell s' 1 = None \<and>
      map_option refcount (cell s' 2) = Some 1 \<and> ctx_refs s' 0 = 2) \<and>
   map_option (\<lambda>(s', r). (map_option refcount (cell s' 2), r)) (kmod_module_ref family_state (Some 2))
     = Some (Some 3, Some 2) \<and>
   map_option (\<lambda>(s', r). (map_option refcount (cell s' 2), r)) (kmod_module_unref family_state (Some 2))
     = Some (Some 1, Some 2) \<and>
   (\<exists>s'. kmod_module_new_from_name family_state (Some 0) (Some ''c'') = (s', 0, Some 3) \<and>
      map_option refcount (cell s' 3) = Some 1)"
proof -
  let ?parent = "\<lparr>ctx = Some 0, path = None, name = Some ''mod'', dep = [1, 2],
                     refcount = 1 :: 32 word, init_dep = True\<rparr>"
  let ?b = "\<lparr>ctx = Some 0, path = None, name = Some ''b'', dep = [],
                     refcount = 2 :: 32 word, init_dep = False\<rparr>"
  have c0: "cell family_state 0 = Some ?parent" and c2: "cell family_state 2 = Some ?b"
    by (simp_all add: cell_def family_state_def)
  have lv: "\<forall>d \<in> set (dep ?parent). leaf family_state d"
    by (simp add: leaf_def cell_def family_state_def)
  note th0 = refcount_lifecycle [of family_state "Some 0" "Some ''c''" bare_env None 0,
      THEN conjunct2, THEN conjunct2]
  note new = th0 [THEN conjunct1] th0 [THEN conjunct2, THEN conjunct2, THEN conjunct1]
  note top = th0 [THEN conjunct2, THEN conjunct2, THEN conjunct2, THEN conjunct2,
      rule_format, OF c0, THEN conjunct2, THEN conjunct2, THEN conjunct2, THEN conjunct2]
  have "refcount ?parent = 1 \<and> distinct (dep ?parent) \<and> 0 \<notin> set (dep ?parent) \<and>
      (\<forall>d \<in> set (dep ?parent). leaf family_state d)"
    using lv by simp
  from top [rule_format, OF this]
  obtain s' where s': "kmod_module_unref family_state (Some 0) = Some (s', None)"
    "cell s' 0 = None" "\<forall>d \<in> set (dep ?parent). cell s' d = released family_state d"
    "\<forall>c'. ctx_refs s' c' = ctx_refs family_state c' - (if ctx ?parent = Some c' then 1 else 0)
                                    - int (length (filter (gives_back family_state c') (dep ?parent)))"
    by blast
  have r1: "released family_state 1 = None"
    and r2: "map_option refcount (released family_state 2) = Some 1"
    by (simp_all add: released_def cell_def family_state_def still_referenced_def)
  have g: "filter (gives_back family_state 0) [1, 2] = [1]"
    by (simp add: gives_back_def cell_def family_state_def still_referenced_def)
  have 1: "\<exists>s'. kmod_module_unref family_state (Some 0) = Some (s', None) \<and>
      cell s' 0 = None \<and> cell s' 1 = None \<and>
      map_option refcount (cell s' 2) = Some 1 \<and> ctx_refs s' 0 = 2"
    using s' r1 r2 g by (intro exI [of _ s']) (simp add: family_state_def)
  note leafth = refcount_lifecycle [of family_state "Some 0" "Some ''c''" bare_env None 2,
      THEN conjunct2, THEN conjunct2, THEN conjunct2, THEN conjunct2, THEN conjunct2, THEN conjunct2,
      rule_format, OF c2]
  have 2: "map_option (\<lambda>(s', r). (map_option refcount (cell s' 2), r)) (kmod_module_ref family_state (Some 2))
     = Some (Some 3, Some 2)"
    using leafth [THEN conjunct1] by (simp add: cell_set_cell family_state_def)
  have "1 < sint (refcount ?b)" by simp
  then have 3: "map_option (\<lambda>(s', r). (map_option refcount (cell s' 2), r)) (kmod_module_unref family_state (Some 2))
     = Some (Some 1, Some 2)"
    using leafth [THEN conjunct2, THEN conjunct2, THEN conjunct1, rule_format, THEN conjunct1]
    by (simp add: cell_set_cell family_state_def)
  have al: "Some (0::nat) \<noteq> None \<and> Some ''c'' \<noteq> None \<and> snd (alloc_request family_state)"
    by (simp add: alloc_request_def family_state_def)
  from new(2) [rule_format, OF this]
  obtain t where t: "kmod_module_new_from_name family_state (Some 0) (Some ''c'') = (t, 0, Some (length (mods family_state)))"
    by blast
  have len: "length (mods family_state) = 3" by (simp add: family_state_def)
  from new(1) [rule_format, OF t]
  have "\<exists>m. cell t (length (mods family_state)) = Some m \<and> refcount m = 1 \<and> ctx m = Some 0 \<and> dep m = []"
    by blast
  then have 4: "\<exists>s'. kmod_module_new_from_name family_state (Some 0) (Some ''c'') = (s', 0, Some 3) \<and>
      map_option refcount (cell s' 3) = Some 1"
    using t unfolding len by (intro exI [of _ t]) auto
  show ?thesis using 1 2 3 4 by blast
qed


section \<open>The dependency loop: induction and tokens\<close>

lemma dep_loop_induct:
  fixes P :: "kstate \<Rightarrow> cbuf \<Rightarrow> nat option \<Rightarrow> nat \<Rightarrow> nat list \<Rightarrow> int \<Rightarrow> bool"
  assumes "\<And>s b str sp l n.
     (\<And>b1 p sp1 s1 b2 modname s2 err depmod s3 l'.
         strtok_r b str [CHR '' '', CHR 0x09] sp = (b1, Some p, sp1) \<Longrightarrow>
         path_to_modname s b1 p False = Some (s1, b2, modname) \<Longrightarrow>
         kmod_module_new_from_name s1 c modname = (s2, err, depmod) \<Longrightarrow>
         \<not> err < 0 \<Longrightarrow>
         kmod_list_append s2 l (the depmod) = (s3, l') \<Longrightarrow>
         P s3 b2 None sp1 l' (n + 1)) \<Longrightarrow>
     P s b str sp l n"
  shows "P s b str sp l n"
proof -
  have "\<And>c'. c' = c \<Longrightarrow> P s b str sp l n"
  proof -
    fix c' show "c' = c \<Longrightarrow> P s b str sp l n"
    proof (induction s c' b str sp l n rule: dep_loop.induct)
      case (1 s c' b str saveptr l n)
      show ?case
      proof (rule assms)
        fix b1 p sp1 s1 b2 modname s2 err depmod s3 l'
        assume a: "strtok_r b str [CHR '' '', CHR 0x09] saveptr = (b1, Some p, sp1)"
          "path_to_modname s b1 p False = Some (s1, b2, modname)"
          "kmod_module_new_from_name s1 c modname = (s2, err, depmod)"
          "\<not> err < 0"
          "kmod_list_append s2 l (the depmod) = (s3, l')"
        show "P s3 b2 None sp1 l' (n + 1)"
          by (rule "1.IH" [of b1 "(Some p, sp1)" "Some p" sp1 p "(s1, b2, modname)" s1
                "(b2, modname)" b2 modname "(s2, err, depmod)" s2 "(err, depmod)" err depmod
                "(s3, l')" s3 l'])
             (simp_all add: a "1.prems")
      qed
    qed
  qed
  then show ?thesis by simp
qed

text \<open>One round of the loop, by cases.\<close>

lemma dep_loop_done:
  "strtok_r b str [CHR '' '', CHR 0x09] sp = (b1, None, sp1) \<Longrightarrow>
   dep_loop s c b str sp l n = Some (Inr (s, b1, l, n))"
  by (subst dep_loop.simps) simp

lemma dep_loop_fail:
  "strtok_r b str [CHR '' '', CHR 0x09] sp = (b1, Some p, sp1) \<Longrightarrow>
   path_to_modname s b1 p False = Some (s1, b2, modname) \<Longrightarrow>
   kmod_module_new_from_name s1 c modname = (s2, err, depmod) \<Longrightarrow> err < 0 \<Longrightarrow>
   dep_loop s c b str sp l n = Some (Inl (s2, b2, l, err))"
  by (subst dep_loop.simps) simp

lemma dep_loop_next:
  "strtok_r b str [CHR '' '', CHR 0x09] sp = (b1, Some p, sp1) \<Longrightarrow>
   path_to_modname s b1 p False = Some (s1, b2, modname) \<Longrightarrow>
   kmod_module_new_from_name s1 c modname = (s2, err, depmod) \<Longrightarrow> \<not> err < 0 \<Longrightarrow>
   kmod_list_append s2 l (the depmod) = (s3, l') \<Longrightarrow>
   dep_loop s c b str sp l n = dep_loop s3 c b2 None sp1 l' (n + 1)"
  by (subst dep_loop.simps) simp

lemma path_to_modname_inplace_returns:
  "\<exists>b' r. path_to_modname s b p False = Some (s, b', r)"
  by (simp add: path_to_modname_def Let_def split: prod.splits)

text \<open>
  What a round of the loop does, as a rule for proving a property \<open>Q\<close> of the result
  from a property \<open>I\<close> of the loop variables.
\<close>

lemma dep_loop_rule:
  fixes I :: "kstate \<Rightarrow> cbuf \<Rightarrow> nat option \<Rightarrow> nat \<Rightarrow> nat list \<Rightarrow> int \<Rightarrow> bool"
  assumes init: "I s b str sp l n"
    and fin: "\<And>s b str sp l n b1 sp1. I s b str sp l n \<Longrightarrow>
        strtok_r b str [CHR '' '', CHR 0x09] sp = (b1, None, sp1) \<Longrightarrow> Q (Inr (s, b1, l, n))"
    and flt: "\<And>s b str sp l n b1 p sp1 b2 modname s2 err depmod. I s b str sp l n \<Longrightarrow>
        strtok_r b str [CHR '' '', CHR 0x09] sp = (b1, Some p, sp1) \<Longrightarrow>
        path_to_modname s b1 p False = Some (s, b2, modname) \<Longrightarrow>
        kmod_module_new_from_name s c modname = (s2, err, depmod) \<Longrightarrow> err < 0 \<Longrightarrow>
        Q (Inl (s2, b2, l, err))"
    and step: "\<And>s b str sp l n b1 p sp1 b2 modname s2 err depmod s3 l'. I s b str sp l n \<Longrightarrow>
        strtok_r b str [CHR '' '', CHR 0x09] sp = (b1, Some p, sp1) \<Longrightarrow>
        path_to_modname s b1 p False = Some (s, b2, modname) \<Longrightarrow>
        kmod_module_new_from_name s c modname = (s2, err, depmod) \<Longrightarrow> \<not> err < 0 \<Longrightarrow>
        kmod_list_append s2 l (the depmod) = (s3, l') \<Longrightarrow> I s3 b2 None sp1 l' (n + 1)"
  shows "\<exists>res. dep_loop s c b str sp l n = Some res \<and> Q res"
  using init
proof (induction s b str sp l n rule: dep_loop_induct [where c = c])
  case (1 s b str sp l n)
  obtain b1 tok sp1 where tk: "strtok_r b str [CHR '' '', CHR 0x09] sp = (b1, tok, sp1)"
    by (cases "strtok_r b str [CHR '' '', CHR 0x09] sp") auto
  show ?case
  proof (cases tok)
    case None
    then show ?thesis using tk fin [OF "1.prems"] dep_loop_done by blast
  next
    case (Some p)
    note tk = tk [unfolded Some]
    obtain b2 modname where pm: "path_to_modname s b1 p False = Some (s, b2, modname)"
      using path_to_modname_inplace_returns by blast
    obtain s2 err depmod where nf: "kmod_module_new_from_name s c modname = (s2, err, depmod)"
      by (cases "kmod_module_new_from_name s c modname") auto
    show ?thesis
    proof (cases "err < 0")
      case True
      then show ?thesis
        using flt [OF "1.prems" tk pm nf] dep_loop_fail [OF tk pm nf] by blast
    next
      case False
      obtain s3 l' where ap: "kmod_list_append s2 l (the depmod) = (s3, l')"
        by (cases "kmod_list_append s2 l (the depmod)") auto
      have "I s3 b2 None sp1 l' (n + 1)"
        using "1.prems" tk pm nf False ap by (rule step)
      with tk pm nf False ap
      have "\<exists>res. dep_loop s3 c b2 None sp1 l' (n + 1) = Some res \<and> Q res"
        by (rule "1.IH")
      then show ?thesis
        using dep_loop_next [OF tk pm nf False ap] by simp
    qed
  qed
qed

lemma strtok_r_spec:
  assumes "NUL \<notin> set r" and "(case str of None \<Rightarrow> sp | Some i \<Rightarrow> i) = length pre"
  shows "strtok_r (pre @ r @ NUL # post) str [CHR '' '', CHR 0x09] sp =
     (let ws = takeWhile is_delim r; r1 = dropWhile is_delim r;
          tok = takeWhile (\<lambda>ch. \<not> is_delim ch) r1;
          r2 = dropWhile (\<lambda>ch. \<not> is_delim ch) r1
      in if r1 = [] then (pre @ r @ NUL # post, None, length pre + length r)
         else if r2 = [] then (pre @ r @ NUL # post, Some (length (pre @ ws)), length (pre @ r))
         else ((pre @ ws @ tok) @ NUL # tl r2 @ NUL # post, Some (length (pre @ ws)),
               length (pre @ ws @ tok) + 1))"
proof -
  let ?D = "[CHR '' '', CHR 0x09]"
  let ?b = "pre @ r @ NUL # post"
  define ws where "ws = takeWhile is_delim r"
  define r1 where "r1 = dropWhile is_delim r"
  define tok where "tok = takeWhile (\<lambda>ch. \<not> is_delim ch) r1"
  define r2 where "r2 = dropWhile (\<lambda>ch. \<not> is_delim ch) r1"
  have r: "r = ws @ r1" by (simp add: ws_def r1_def)
  have r1: "r1 = tok @ r2" by (simp add: tok_def r2_def)
  have n1: "NUL \<notin> set r1" "NUL \<notin> set r2" "NUL \<notin> set tok" "NUL \<notin> set ws"
    using assms(1) r r1 by auto
  have dl: "(\<lambda>c. c \<in> set ?D) = is_delim" "(\<lambda>c. c \<notin> set ?D) = (\<lambda>ch. \<not> is_delim ch)"
    by (auto simp: is_delim_def)
  define L where "L = length pre"
  define s1 where "s1 = L + length ws"
  define e where "e = s1 + length tok"
  have s0: "(case str of None \<Rightarrow> sp | Some i \<Rightarrow> i) = L" using assms(2) by (simp add: L_def)
  have hdnz: "\<And>xs. NUL \<notin> set xs \<Longrightarrow> (hd (xs @ [NUL]) = NUL) = (xs = [])"
    by (case_tac xs) auto
  have "peek ?b (length pre) = hd (r @ [NUL])"
    using peek_append_length [of pre "hd (r @ [NUL])" "tl (r @ NUL # post)"] by (cases r) auto
  then have pk0: "(peek ?b L = NUL) = (r = [])"
    using hdnz [OF assms(1)] by (simp add: L_def)
  have sp: "L + strspn ?b L ?D = s1"
    unfolding strspn_def L_def s1_def cstr_append_NUL [OF assms(1)] dl ws_def by (rule refl)
  have b1: "?b = (pre @ ws) @ r1 @ NUL # post" using r by simp
  have "peek ((pre @ ws) @ r1 @ NUL # post) (length (pre @ ws)) = hd (r1 @ [NUL])"
    using peek_append_length [of "pre @ ws" "hd (r1 @ [NUL])" "tl (r1 @ NUL # post)"]
    by (cases r1) auto
  then have pk1: "(peek ?b s1 = NUL) = (r1 = [])"
    using hdnz [OF n1(1)] b1 by (simp add: s1_def L_def)
  have "cstr ((pre @ ws) @ r1 @ NUL # post) (length (pre @ ws)) = r1"
    using n1(1) by (rule cstr_append_NUL)
  then have c1: "cstr ?b s1 = r1"
    using b1 by (simp add: s1_def L_def)
  have cs: "s1 + strcspn ?b s1 ?D = e"
    unfolding strcspn_def c1 dl tok_def e_def by (rule refl)
  have b2: "?b = (pre @ ws @ tok) @ r2 @ NUL # post" using r r1 by simp
  have le: "length (pre @ ws @ tok) = e" by (simp add: e_def s1_def L_def)
  have "peek ((pre @ ws @ tok) @ r2 @ NUL # post) (length (pre @ ws @ tok)) = hd (r2 @ [NUL])"
    using peek_append_length [of "pre @ ws @ tok" "hd (r2 @ [NUL])" "tl (r2 @ NUL # post)"]
    by (cases r2) auto
  then have pk2: "(peek ?b e = NUL) = (r2 = [])"
    using hdnz [OF n1(2)] b2 le by simp
  have "r2 \<noteq> [] \<Longrightarrow> poke ((pre @ ws @ tok) @ r2 @ NUL # post) (length (pre @ ws @ tok)) NUL
       = (pre @ ws @ tok) @ NUL # tl r2 @ NUL # post"
    using poke_append_length [of "pre @ ws @ tok" "hd r2" "tl r2 @ NUL # post" NUL]
    by (cases r2) auto
  then have pokeq: "r2 \<noteq> [] \<Longrightarrow> poke ?b e NUL = (pre @ ws @ tok) @ NUL # tl r2 @ NUL # post"
    using b2 le by simp
  have st: "strtok_r ?b str ?D sp =
     (if r = [] then (?b, None, L)
      else if r1 = [] then (?b, None, s1)
      else if r2 = [] then (?b, Some s1, e)
      else (poke ?b e NUL, Some s1, e + 1))"
    unfolding strtok_r_def s0 Let_def sp cs pk0 pk1 pk2 by (rule refl)
  have r1e: "r1 = [] \<Longrightarrow> s1 = length pre + length r" using r by (simp add: s1_def L_def)
  have r0: "r = [] \<Longrightarrow> r1 = [] \<and> L = length pre + length r" using r by (simp add: L_def)
  have r2e: "r2 = [] \<Longrightarrow> e = length (pre @ r)" using r r1 by (simp add: e_def s1_def L_def)
  have s1e: "s1 = length (pre @ ws)" by (simp add: s1_def L_def)
  show ?thesis
    unfolding st Let_def ws_def [symmetric] r1_def [symmetric]
      tok_def [symmetric] r2_def [symmetric]
    using r0 r1e r2e pokeq s1e le by auto
qed


section \<open>The dependency loop: what it computes\<close>

lemma length_modname_of: "length (modname_of t) = length (takeWhile (\<lambda>x. x \<noteq> CHR ''.'') t)"
  by (simp add: modname_of_def)

lemma modname_tail_length:
  "length (modname_of base) +
     length (case dropWhile (\<lambda>x. x \<noteq> CHR ''.'') base of [] \<Rightarrow> [] | x # xs \<Rightarrow> NUL # xs)
   = length base"
  by (induction base) (simp_all add: modname_of_def)

lemma inplace_token_split:
  assumes "tok = d @ last_component tok"
  shows "inplace_token tok = d @ modname_of (last_component tok) @
     (case dropWhile (\<lambda>x. x \<noteq> CHR ''.'') (last_component tok) of [] \<Rightarrow> [] | x # xs \<Rightarrow> NUL # xs)"
proof -
  have "length tok = length d + length (last_component tok)"
    using assms by (metis length_append)
  then have "take (length tok - length (last_component tok)) tok = take (length d) tok"
    by simp
  also have "\<dots> = d" using assms by (metis append_eq_conv_conj)
  finally show ?thesis by (simp add: inplace_token_def)
qed

lemma length_inplace_token: "length (inplace_token tok) = length tok"
proof -
  obtain d where d: "tok = d @ last_component tok" using last_component_decomp by blast
  have "length (inplace_token tok) = length d + length (last_component tok)"
    unfolding inplace_token_split [OF d] using modname_tail_length [of "last_component tok"]
    by simp
  then show ?thesis using d by (metis length_append)
qed

lemma tail_after_name:
  "modname_of base @ NUL # tl (dropWhile (\<lambda>x. x \<noteq> CHR ''.'') base @ NUL # X)
     = (modname_of base @ (case dropWhile (\<lambda>x. x \<noteq> CHR ''.'') base of [] \<Rightarrow> [] | x # xs \<Rightarrow> NUL # xs))
        @ NUL # X"
proof (cases "dropWhile (\<lambda>x. x \<noteq> CHR ''.'') base")
  case Nil
  show ?thesis unfolding Nil by simp
next
  case (Cons x xs)
  show ?thesis unfolding Cons by simp
qed

lemma path_to_modname_token:
  assumes "NUL \<notin> set tok"
  shows "path_to_modname s (P @ tok @ NUL # X) (length P) False =
     (if last_component tok = [] then Some (s, P @ tok @ NUL # X, None)
      else Some (s, P @ inplace_token tok @ NUL # X, Some (modname_of (last_component tok))))"
proof -
  let ?base = "last_component tok"
  obtain d where d: "tok = d @ ?base" "d = [] \<or> last d = CHR ''/''"
    using last_component_decomp by blast
  have n: "NUL \<notin> set d" "NUL \<notin> set ?base"
    using assms d(1) by (metis Un_iff set_append)+
  have b: "P @ tok @ NUL # X = P @ d @ ?base @ NUL # X"
    using d(1) by (metis append_assoc)
  have e: "P @ d @ modname_of ?base @ NUL # tl (dropWhile (\<lambda>x. x \<noteq> CHR ''.'') ?base @ NUL # X)
      = P @ inplace_token tok @ NUL # X"
    unfolding inplace_token_split [OF d(1)] tail_after_name by simp
  show ?thesis
    unfolding b path_to_modname_inplace [OF n last_component_no_slash d(2), of s P X] e
    by (rule refl)
qed

lemma tokens_Nil: "tokens r = [] \<longleftrightarrow> dropWhile is_delim r = []"
  by (subst tokens.simps) (simp add: Let_def)


lemma strtok_r_no_token:
  assumes "NUL \<notin> set r" and "(case str of None \<Rightarrow> sp | Some i \<Rightarrow> i) = length pre"
    and "tokens r = []"
  shows "strtok_r (pre @ r @ NUL # post) str [CHR '' '', CHR 0x09] sp
       = (pre @ r @ NUL # post, None, length pre + length r)"
  using assms(3) unfolding strtok_r_spec [OF assms(1,2)] tokens_Nil by (simp add: Let_def)



lemma dep_state_allocs [simp]: "allocs (dep_state s ca names) = allocs s"
  by (simp add: dep_state_def)

lemma dep_state_length [simp]: "length (mods (dep_state s ca names)) = length (mods s) + length names"
  by (simp add: dep_state_def)

lemma dep_state_Nil [simp]: "dep_state s ca [] = s"
  by (simp add: dep_state_def)




lemma peek_poke: "peek (poke b e x) i = (if i = e \<and> e < length b then x else peek b i)"
  by (simp add: peek_def poke_def)

lemma modname_loop_keeps:
  "peek b i \<noteq> CHR ''-'' \<Longrightarrow> peek (fst (modname_loop b c)) i = peek b i"
proof (induction b c rule: modname_loop.induct)
  case (1 b c)
  show ?case
  proof (cases "peek b c \<noteq> NUL \<and> peek b c \<noteq> CHR ''.''")
    case False
    have "modname_loop b c = (b, c)"
      using False by (subst modname_loop.simps) auto
    then show ?thesis by simp
  next
    case True
    let ?b' = "if peek b c = CHR ''-'' then poke b c (CHR ''_'') else b"
    have k: "peek ?b' i = peek b i"
      using "1.prems" by (auto simp: peek_poke)
    then have "peek (fst (modname_loop ?b' (c + 1))) i = peek ?b' i"
      using "1.IH" [OF True] "1.prems" by simp
    moreover have "modname_loop b c = modname_loop ?b' (c + 1)"
      using True by (subst modname_loop.simps) simp
    ultimately show ?thesis using k by simp
  qed
qed

lemma NUL_not_dash: "NUL \<noteq> CHR ''-''"
  by (simp add: NUL_def)

lemma path_to_modname_keeps_NUL:
  assumes "path_to_modname s b p False = Some (s', b', r)" and "peek b i = NUL"
  shows "peek b' i = NUL"
proof (cases "peek b (basename b p) = NUL")
  case True
  then show ?thesis using assms by (simp add: path_to_modname_def Let_def)
next
  case False
  obtain b1 c where ml: "modname_loop b (basename b p) = (b1, c)"
    by (cases "modname_loop b (basename b p)")
  have "peek (fst (modname_loop b (basename b p))) i = peek b i"
    using assms(2) NUL_not_dash by (intro modname_loop_keeps) simp
  then have "peek b1 i = NUL" using ml assms(2) by simp
  moreover have "b' = poke b1 c NUL"
    using assms(1) False ml by (simp add: path_to_modname_def Let_def)
  ultimately show ?thesis by (simp add: peek_poke)
qed

lemma strtok_r_buffer:
  assumes "strtok_r b str d sp = (b1, tok, sp1)"
  shows "length b1 = length b \<and> (\<forall>i. peek b i = NUL \<longrightarrow> peek b1 i = NUL)"
  using assms
  by (auto simp: strtok_r_def Let_def peek_poke split: if_splits)

lemma mods_alloc_request [simp]: "mods (fst (alloc_request s)) = mods s"
  by (simp add: alloc_request_def split: list.splits)

lemma ctx_refs_alloc_request [simp]: "ctx_refs (fst (alloc_request s)) = ctx_refs s"
  by (simp add: alloc_request_def split: list.splits)

lemma cell_cong_mods: "mods s' = mods s \<Longrightarrow> cell s' a = cell s a"
  by (simp add: cell_def)

lemma cell_append_old: "mods s' = mods s @ [x] \<Longrightarrow> a < length (mods s) \<Longrightarrow> cell s' a = cell s a"
  by (simp add: cell_def nth_append)

lemma cell_append_new: "mods s' = mods s @ [x] \<Longrightarrow> cell s' (length (mods s)) = x"
  by (simp add: cell_def)

lemma fresh_deps_cong:
  "mods s' = mods s \<Longrightarrow> fresh_deps s c N l \<Longrightarrow> fresh_deps s' c N l"
  using cell_cong_mods [of s' s] by (simp add: fresh_deps_def)

lemma fresh_deps_Nil [simp]: "fresh_deps s c N []"
  by (simp add: fresh_deps_def)

lemma fresh_deps_snoc:
  assumes "fresh_deps s c N l" and "N \<le> length (mods s)"
    and "mods s' = mods s @ [Some \<lparr>ctx = c, path = None, name = nm, dep = [],
                                      refcount = 1, init_dep = False\<rparr>]"
  shows "fresh_deps s' c N (l @ [length (mods s)])"
proof -
  have lt: "\<forall>d \<in> set l. d < length (mods s)"
    using assms(1) by (auto simp: fresh_deps_def dest: cell_live)
  then have "\<forall>d \<in> set l. cell s' d = cell s d"
    using assms(3) by (simp add: cell_append_old)
  moreover have "cell s' (length (mods s)) = Some \<lparr>ctx = c, path = None, name = nm, dep = [],
                                      refcount = 1, init_dep = False\<rparr>"
    using assms(3) by (rule cell_append_new)
  moreover have "length (mods s) \<notin> set l" using lt by auto
  ultimately show ?thesis
    using assms(1,2) by (auto simp: fresh_deps_def)
qed

lemma kmod_list_append_cases:
  "kmod_list_append s l x = (s', l') \<Longrightarrow>
   s' = fst (alloc_request s) \<and> (l' = l @ [x] \<or> l' = [])"
  by (auto simp: kmod_list_append_def split: prod.splits if_splits)

lemma dep_loop_general:
  "\<exists>res. dep_loop s0 c b0 str0 sp0 [] 0 = Some res \<and>
     (case res of
        Inr (s', b', l', n') \<Rightarrow>
          loop_outcome s0 c b0 (fst (strtok_r b0 str0 [CHR '' '', CHR 0x09] sp0)) s' b' l' \<and> 0 \<le> n'
      | Inl (s', b', l', err) \<Rightarrow>
          loop_outcome s0 c b0 (fst (strtok_r b0 str0 [CHR '' '', CHR 0x09] sp0)) s' b' l' \<and>
          (err = - ENOENT \<or> err = - ENOMEM))"
proof -
  define B1 where "B1 = fst (strtok_r b0 str0 [CHR '' '', CHR 0x09] sp0)"
  define N where "N = length (mods s0)"
  define K where "K = (\<lambda>b. length b = length b0 \<and> (\<forall>i. peek B1 i = NUL \<longrightarrow> peek b i = NUL))"
  define H where "H = (\<lambda>s l. N \<le> length (mods s) \<and> (\<forall>a < N. cell s a = cell s0 a) \<and>
      fresh_deps s c N l)"
  define I :: "kstate \<Rightarrow> cbuf \<Rightarrow> nat option \<Rightarrow> nat \<Rightarrow> nat list \<Rightarrow> int \<Rightarrow> bool" where
    "I = (\<lambda>s b str sp l n. ((b = b0 \<and> str = str0 \<and> sp = sp0) \<or> K b) \<and> length b = length b0 \<and>
        0 \<le> n \<and> H s l)"
  define Q :: "(kstate \<times> cbuf \<times> nat list \<times> int) + (kstate \<times> cbuf \<times> nat list \<times> int) \<Rightarrow> bool" where
    "Q = (\<lambda>res. case res of
        Inr (s', b', l', n') \<Rightarrow> K b' \<and> H s' l' \<and> 0 \<le> n'
      | Inl (s', b', l', err) \<Rightarrow> K b' \<and> H s' l' \<and> (err = - ENOENT \<or> err = - ENOMEM))"
  have first: "\<And>s b str sp l n b1 tok sp1. I s b str sp l n \<Longrightarrow>
      strtok_r b str [CHR '' '', CHR 0x09] sp = (b1, tok, sp1) \<Longrightarrow> K b1"
  proof -
    fix s b str sp l n b1 tok sp1
    assume i: "I s b str sp l n" and tk: "strtok_r b str [CHR '' '', CHR 0x09] sp = (b1, tok, sp1)"
    note sb = strtok_r_buffer [OF tk]
    from i have d: "(b = b0 \<and> str = str0 \<and> sp = sp0) \<or> K b" and lb: "length b = length b0"
      by (simp_all add: I_def)
    from d show "K b1"
    proof
      assume "b = b0 \<and> str = str0 \<and> sp = sp0"
      then have "b1 = B1" using tk by (simp add: B1_def)
      then show ?thesis using sb lb by (simp add: K_def)
    next
      assume "K b"
      then show ?thesis using sb by (simp add: K_def)
    qed
  qed
  have second: "\<And>s b1 p s' b2 r. K b1 \<Longrightarrow> path_to_modname s b1 p False = Some (s', b2, r) \<Longrightarrow> K b2"
    using path_to_modname_length path_to_modname_keeps_NUL unfolding K_def by metis
  have "\<exists>res. dep_loop s0 c b0 str0 sp0 [] 0 = Some res \<and> Q res"
  proof (rule dep_loop_rule [where I = I and Q = Q])
    show "I s0 b0 str0 sp0 [] 0"
      by (simp add: I_def H_def N_def)
  next
    fix s b str sp l n b1 sp1
    assume i: "I s b str sp l n"
      and tk: "strtok_r b str [CHR '' '', CHR 0x09] sp = (b1, None, sp1)"
    show "Q (Inr (s, b1, l, n))"
      using first [OF i tk] i by (simp add: Q_def I_def)
  next
    fix s b str sp l n b1 p sp1 b2 modname s2 err depmod
    assume i: "I s b str sp l n"
      and tk: "strtok_r b str [CHR '' '', CHR 0x09] sp = (b1, Some p, sp1)"
      and pm: "path_to_modname s b1 p False = Some (s, b2, modname)"
      and nf: "kmod_module_new_from_name s c modname = (s2, err, depmod)"
      and er: "err < 0"
    have k: "K b2" using first [OF i tk] pm by (rule second)
    from new_from_name_result [OF nf] er
    have e: "(err = - ENOENT \<or> err = - ENOMEM) \<and> mods s2 = mods s"
      by auto
    then have "H s2 l"
      using i fresh_deps_cong [of s2 s c N l] cell_cong_mods [of s2 s]
      by (simp add: I_def H_def)
    then show "Q (Inl (s2, b2, l, err))"
      using k e by (simp add: Q_def)
  next
    fix s b str sp l n b1 p sp1 b2 modname s2 err depmod s3 l'
    assume i: "I s b str sp l n"
      and tk: "strtok_r b str [CHR '' '', CHR 0x09] sp = (b1, Some p, sp1)"
      and pm: "path_to_modname s b1 p False = Some (s, b2, modname)"
      and nf: "kmod_module_new_from_name s c modname = (s2, err, depmod)"
      and er: "\<not> err < 0"
      and ap: "kmod_list_append s2 l (the depmod) = (s3, l')"
    have k: "K b2" using first [OF i tk] pm by (rule second)
    from i have h: "N \<le> length (mods s)" "\<forall>a < N. cell s a = cell s0 a" "fresh_deps s c N l"
      and n0: "0 \<le> n"
      by (simp_all add: I_def H_def)
    from new_from_name_result [OF nf] er
    obtain nm where ok: "depmod = Some (length (mods s))"
      "mods s2 = mods s @ [Some \<lparr>ctx = c, path = None, name = nm, dep = [],
                                      refcount = 1, init_dep = False\<rparr>]"
      by (auto simp: ENOENT_def ENOMEM_def)
    from kmod_list_append_cases [OF ap]
    have s3: "mods s3 = mods s2" and l': "l' = l @ [length (mods s)] \<or> l' = []"
      using ok(1) by simp_all
    have f2: "fresh_deps s2 c N (l @ [length (mods s)])"
      using h(3,1) ok(2) by (rule fresh_deps_snoc)
    have "fresh_deps s3 c N l'"
      using l' fresh_deps_cong [OF s3 f2] by auto
    moreover have "N \<le> length (mods s3)" using s3 ok(2) h(1) by simp
    moreover have "\<forall>a < N. cell s3 a = cell s0 a"
      using h(1,2) cell_cong_mods [OF s3] cell_append_old [OF ok(2)] by simp
    ultimately have "H s3 l'" by (simp add: H_def)
    then show "I s3 b2 None sp1 l' (n + 1)"
      using k n0 by (simp add: I_def K_def)
  qed
  then obtain res where res: "dep_loop s0 c b0 str0 sp0 [] 0 = Some res" "Q res"
    by blast
  have "case res of
        Inr (s', b', l', n') \<Rightarrow>
          loop_outcome s0 c b0 (fst (strtok_r b0 str0 [CHR '' '', CHR 0x09] sp0)) s' b' l' \<and> 0 \<le> n'
      | Inl (s', b', l', err) \<Rightarrow>
          loop_outcome s0 c b0 (fst (strtok_r b0 str0 [CHR '' '', CHR 0x09] sp0)) s' b' l' \<and>
          (err = - ENOENT \<or> err = - ENOMEM)"
    using res(2) unfolding Q_def loop_outcome_def K_def H_def N_def B1_def
    by (cases res) (simp_all split: prod.splits)
  with res(1) show ?thesis by blast
qed

lemma cell_upd_cell:
  "cell (upd_cell s p f) a = (if a = p then map_option f (cell s p) else cell s a)"
  by (auto simp: upd_cell_def cell_set_cell) (simp add: cell_def)

lemma length_upd_cell [simp]: "length (mods (upd_cell s p f)) = length (mods s)"
  by (simp add: upd_cell_def)

lemma ctx_refs_upd_cell [simp]: "ctx_refs (upd_cell s p f) = ctx_refs s"
  by (simp add: upd_cell_def)

lemma allocs_upd_cell [simp]: "allocs (upd_cell s p f) = allocs s"
  by (simp add: upd_cell_def set_cell_def)

lemma release_fresh_deps:
  assumes "fresh_deps s c N l"
  shows "\<exists>s'. kmod_module_unref_list s l = Some (s', 0) \<and>
     (\<forall>d \<in> set l. cell s d \<noteq> None \<and> cell s' d = None) \<and>
     (\<forall>a. a \<notin> set l \<longrightarrow> cell s' a = cell s a) \<and>
     (\<forall>c'. ctx_refs s' c' = ctx_refs s c' - (if c = Some c' then int (length l) else 0)) \<and>
     same_frame s s'"
proof (cases l)
  case Nil
  then show ?thesis by (simp add: kmod_module_unref_list_def)
next
  case (Cons d ds)
  then have "d \<in> set l" by simp
  then have "cell s d \<noteq> None" using assms by (auto simp: fresh_deps_def)
  then have "d < length (mods s)" by (auto dest: cell_live)
  then obtain k where k: "length (mods s) = Suc k" by (cases "length (mods s)") auto
  have lv: "\<forall>d \<in> set l. leaf s d" and ds: "distinct l"
    using assms by (auto simp: fresh_deps_def leaf_def)
  obtain s' where s': "unref_list_rec (Suc k) s l = Some s'"
     "\<forall>d \<in> set l. cell s' d = released s d"
     "\<forall>a. a \<notin> set l \<longrightarrow> cell s' a = cell s a"
     "\<forall>c'. ctx_refs s' c' = ctx_refs s c' - int (length (filter (gives_back s c') l))"
     "same_frame s s'"
    using unref_list_leaves [OF ds lv, of k] by blast
  have rl: "\<forall>d \<in> set l. cell s d \<noteq> None \<and> released s d = None"
    using assms by (auto simp: fresh_deps_def released_def still_referenced_def)
  have gb: "\<And>c'. filter (gives_back s c') l = (if c = Some c' then l else [])"
  proof -
    fix c'
    have "\<forall>d \<in> set l. gives_back s c' d = (c = Some c')"
      using assms by (auto simp: fresh_deps_def gives_back_def still_referenced_def)
    then show "filter (gives_back s c') l = (if c = Some c' then l else [])"
      by (simp add: filter_id_conv filter_empty_conv)
  qed
  have "kmod_module_unref_list s l = Some (s', 0)"
    using s'(1) by (simp add: kmod_module_unref_list_def k)
  then show ?thesis
    using s'(2,3,4,5) rl by (intro exI [of _ s']) (simp add: gb)
qed

lemma parse_dep_outcome:
  assumes "cell s md = Some m" and "\<not> init_dep m" and "dep m = []"
  shows "\<exists>s2 b r. kmod_module_parse_dep s md line = Some (s2, b, r) \<and> length b = length line \<and>
     (\<forall>p i. strchr line 0 (CHR '':'') = Some p \<and>
            peek (fst (strtok_r line (Some (p + 1)) [CHR '' '', CHR 0x09] 0)) i = NUL \<longrightarrow>
            peek b i = NUL) \<and>
     (r < 0 \<longrightarrow>
        cell s2 md = Some m \<and> (r = - ENOENT \<or> r = - ENOMEM) \<and>
        (\<forall>a < length (mods s). cell s2 a = cell s a) \<and>
        (\<exists>p s1 l. strchr line 0 (CHR '':'') = Some p \<and>
           dep_loop (upd_cell s md (\<lambda>m. m\<lparr>init_dep := True\<rparr>)) (ctx m) line (Some (p + 1)) 0 [] 0
             = Some (Inl (s1, b, l, r)) \<and>
           (\<forall>d \<in> set l. cell s1 d \<noteq> None \<and> cell s2 d = None) \<and>
           (\<forall>c'. ctx_refs s2 c' = ctx_refs s1 c' - (if ctx m = Some c' then int (length l) else 0))))"
proof (cases "strchr line 0 (CHR '':'')")
  case None
  then have "kmod_module_parse_dep s md line =
      Some (upd_cell s md (\<lambda>m. m\<lparr>init_dep := True\<rparr>), line, 0)"
    using assms by (simp add: kmod_module_parse_dep_def)
  then show ?thesis using None by simp
next
  case (Some p)
  let ?s0 = "upd_cell s md (\<lambda>m. m\<lparr>init_dep := True\<rparr>)"
  let ?B1 = "fst (strtok_r line (Some (p + 1)) [CHR '' '', CHR 0x09] 0)"
  have ml: "md < length (mods s)" using assms(1) by (rule cell_live)
  obtain res where res: "dep_loop ?s0 (ctx m) line (Some (p + 1)) 0 [] 0 = Some res"
    "case res of
        Inr (s', b', l', n') \<Rightarrow> loop_outcome ?s0 (ctx m) line ?B1 s' b' l' \<and> 0 \<le> n'
      | Inl (s', b', l', err) \<Rightarrow> loop_outcome ?s0 (ctx m) line ?B1 s' b' l' \<and>
          (err = - ENOENT \<or> err = - ENOMEM)"
    using dep_loop_general [of ?s0 "ctx m" line "Some (p + 1)" 0] by blast
  show ?thesis
  proof (cases res)
    case (Inr x)
    obtain s1 b l n where x: "x = (s1, b, l, n)" by (cases x)
    have o: "loop_outcome ?s0 (ctx m) line ?B1 s1 b l" "0 \<le> n"
      using res(2) Inr x by simp_all
    have "kmod_module_parse_dep s md line = Some (upd_cell s1 md (\<lambda>m. m\<lparr>dep := l\<rparr>), b, n)"
      using assms Some res(1) Inr x by (simp add: kmod_module_parse_dep_def)
    then show ?thesis
      using o Some by (simp add: loop_outcome_def)
  next
    case (Inl x)
    obtain s1 b l err where x: "x = (s1, b, l, err)" by (cases x)
    have o: "loop_outcome ?s0 (ctx m) line ?B1 s1 b l" "err = - ENOENT \<or> err = - ENOMEM"
      using res(2) Inl x by simp_all
    then have fd: "fresh_deps s1 (ctx m) (length (mods s)) l"
      and old: "\<forall>a < length (mods s). cell s1 a = cell ?s0 a"
      by (simp_all add: loop_outcome_def)
    obtain s2 where s2: "kmod_module_unref_list s1 l = Some (s2, 0)"
      "\<forall>d \<in> set l. cell s1 d \<noteq> None \<and> cell s2 d = None"
      "\<forall>a. a \<notin> set l \<longrightarrow> cell s2 a = cell s1 a"
      "\<forall>c'. ctx_refs s2 c' = ctx_refs s1 c' - (if ctx m = Some c' then int (length l) else 0)"
      using release_fresh_deps [OF fd] by blast
    have nl: "\<forall>a < length (mods s). a \<notin> set l"
      using fd by (auto simp: fresh_deps_def)
    have c0: "cell ?s0 md = Some (m\<lparr>init_dep := True\<rparr>)"
      using assms(1) by (simp add: cell_upd_cell)
    have c2: "cell s2 md = Some (m\<lparr>init_dep := True\<rparr>)"
      using s2(3) nl old ml c0 by simp
    let ?s3 = "upd_cell s2 md (\<lambda>m. m\<lparr>init_dep := False\<rparr>)"
    have r: "kmod_module_parse_dep s md line = Some (?s3, b, err)"
      using assms Some res(1) Inl x s2(1) c2 by (simp add: kmod_module_parse_dep_def)
    have "m\<lparr>init_dep := False\<rparr> = m" using assms(2) by simp
    then have 1: "cell ?s3 md = Some m" using c2 by (simp add: cell_upd_cell)
    have 2: "\<forall>a < length (mods s). cell ?s3 a = cell s a"
    proof (intro allI impI)
      fix a assume a: "a < length (mods s)"
      show "cell ?s3 a = cell s a"
      proof (cases "a = md")
        case True
        then show ?thesis using 1 assms(1) by simp
      next
        case False
        then have "cell ?s3 a = cell s2 a" by (simp add: cell_upd_cell)
        also have "\<dots> = cell s1 a" using s2(3) nl a by simp
        also have "\<dots> = cell ?s0 a" using old a by simp
        also have "\<dots> = cell s a" using False by (simp add: cell_upd_cell)
        finally show ?thesis .
      qed
    qed
    have 3: "\<forall>d \<in> set l. cell s1 d \<noteq> None \<and> cell ?s3 d = None"
      using s2(2) nl ml by (auto simp: cell_upd_cell)
    have 4: "\<forall>c'. ctx_refs ?s3 c' = ctx_refs s1 c' - (if ctx m = Some c' then int (length l) else 0)"
      using s2(4) by simp
    have 5: "length b = length line \<and> (\<forall>i. peek ?B1 i = NUL \<longrightarrow> peek b i = NUL)"
      using o(1) by (simp add: loop_outcome_def)
    have 6: "\<exists>p s1 l. strchr line 0 (CHR '':'') = Some p \<and>
           dep_loop ?s0 (ctx m) line (Some (p + 1)) 0 [] 0 = Some (Inl (s1, b, l, err)) \<and>
           (\<forall>d \<in> set l. cell s1 d \<noteq> None \<and> cell ?s3 d = None) \<and>
           (\<forall>c'. ctx_refs ?s3 c' = ctx_refs s1 c' - (if ctx m = Some c' then int (length l) else 0))"
      using Some res(1) Inl x 3 4 by blast
    show ?thesis
      apply (rule exI [of _ ?s3], rule exI [of _ b], rule exI [of _ err])
      using r 1 2 5 6 o(2) Some by simp
  qed
qed


section \<open>Dependency lines\<close>

lemma strchr_colon:
  assumes "NUL \<notin> set line"
  shows "strchr (cbuf_of line) 0 (CHR '':'') =
     (if CHR '':'' \<in> set line then Some (length (takeWhile (\<lambda>c. c \<noteq> CHR '':'') line)) else None)"
  by (simp add: strchr_def cstr_cbuf_of [OF assms])




lemma dep_loop_fail_code:
  "dep_loop s0 c b0 str0 sp0 [] 0 = Some (Inl (s1, b, l, err)) \<Longrightarrow> err = - ENOENT \<or> err = - ENOMEM"
  using dep_loop_general [of s0 c b0 str0 sp0] by auto

text \<open>
  What the \<open>fail\<close> label does. When the loop of \<open>kmod_module_parse_dep\<close> leaves
  through \<open>fail\<close> with the number \<open>err\<close> and the list \<open>l\<close> it holds at that moment,
  the function returns that number, which is negative; every handle of \<open>l\<close> was live
  and is freed, its context reference given back; the handle is as it was before the
  call, guard not set and dependency list empty; and no cell that existed before the call
  has changed. Nothing is said here of handles that are not in \<open>l\<close>.
\<close>

lemma parse_dep_fail_releases_list:
  assumes "cell s md = Some m" and "\<not> init_dep m" and "dep m = []"
    and "strchr line 0 (CHR '':'') = Some p"
    and "dep_loop (upd_cell s md (\<lambda>m. m\<lparr>init_dep := True\<rparr>)) (ctx m) line (Some (p + 1)) 0 [] 0
           = Some (Inl (s1, b, l, err))"
  shows "err < 0 \<and>
     (\<exists>s2. kmod_module_parse_dep s md line = Some (s2, b, err) \<and>
        cell s2 md = Some m \<and>
        (\<forall>d \<in> set l. cell s1 d \<noteq> None \<and> cell s2 d = None) \<and>
        (\<forall>c'. ctx_refs s2 c' = ctx_refs s1 c' - (if ctx m = Some c' then int (length l) else 0)) \<and>
        (\<forall>a < length (mods s). cell s2 a = cell s a))"
proof -
  have neg: "err < 0"
    using dep_loop_fail_code [OF assms(5)] by (auto simp: ENOENT_def ENOMEM_def)
  obtain s2 b' r where o: "kmod_module_parse_dep s md line = Some (s2, b', r)"
    and imp: "r < 0 \<longrightarrow> cell s2 md = Some m \<and> (r = - ENOENT \<or> r = - ENOMEM) \<and>
        (\<forall>a < length (mods s). cell s2 a = cell s a) \<and>
        (\<exists>p s1 l. strchr line 0 (CHR '':'') = Some p \<and>
           dep_loop (upd_cell s md (\<lambda>m. m\<lparr>init_dep := True\<rparr>)) (ctx m) line (Some (p + 1)) 0 [] 0
             = Some (Inl (s1, b', l, r)) \<and>
           (\<forall>d \<in> set l. cell s1 d \<noteq> None \<and> cell s2 d = None) \<and>
           (\<forall>c'. ctx_refs s2 c' = ctx_refs s1 c' - (if ctx m = Some c' then int (length l) else 0)))"
    using parse_dep_outcome [OF assms(1,2,3), of line] by blast
  have "b' = b \<and> r = err"
    using o assms by (simp add: kmod_module_parse_dep_def split: option.splits prod.splits)
  then have e: "b' = b" "r = err" by simp_all
  from imp neg have f: "cell s2 md = Some m" "\<forall>a < length (mods s). cell s2 a = cell s a"
    "\<exists>p s1 l. strchr line 0 (CHR '':'') = Some p \<and>
           dep_loop (upd_cell s md (\<lambda>m. m\<lparr>init_dep := True\<rparr>)) (ctx m) line (Some (p + 1)) 0 [] 0
             = Some (Inl (s1, b, l, err)) \<and>
           (\<forall>d \<in> set l. cell s1 d \<noteq> None \<and> cell s2 d = None) \<and>
           (\<forall>c'. ctx_refs s2 c' = ctx_refs s1 c' - (if ctx m = Some c' then int (length l) else 0))"
    unfolding e by simp_all
  from f(3) obtain p' s1' l' where g: "strchr line 0 (CHR '':'') = Some p'"
    "dep_loop (upd_cell s md (\<lambda>m. m\<lparr>init_dep := True\<rparr>)) (ctx m) line (Some (p' + 1)) 0 [] 0
             = Some (Inl (s1', b, l', err))"
    "\<forall>d \<in> set l'. cell s1' d \<noteq> None \<and> cell s2 d = None"
    "\<forall>c'. ctx_refs s2 c' = ctx_refs s1' c' - (if ctx m = Some c' then int (length l') else 0)"
    by blast
  have "p' = p" using g(1) assms(4) by simp
  then have "s1' = s1" "l' = l" using g(2) assms(5) by simp_all
  then show ?thesis using neg o e f(1,2) g(3,4) by simp
qed

lemma cstr_cut:
  assumes "e < length b" and "b ! e = NUL"
  shows "length (cstr b 0) \<le> e"
proof (rule ccontr)
  assume "\<not> length (cstr b 0) \<le> e"
  then have l: "e < length (takeWhile (\<lambda>c. c \<noteq> NUL) b)" by (simp add: cstr_def)
  then have "takeWhile (\<lambda>c. c \<noteq> NUL) b ! e \<in> set (takeWhile (\<lambda>c. c \<noteq> NUL) b)"
    by (rule nth_mem)
  then have "takeWhile (\<lambda>c. c \<noteq> NUL) b ! e \<noteq> NUL" by (rule set_takeWhileD [THEN conjunct2])
  moreover have "takeWhile (\<lambda>c. c \<noteq> NUL) b ! e = b ! e" using l by (rule takeWhile_nth)
  ultimately show False using assms(2) by simp
qed

lemma first_strtok:
  assumes "NUL \<notin> set line" and "line = subj @ CHR '':'' # ws @ tok @ d # r'"
    and "\<forall>c \<in> set ws. is_delim c" and "tok \<noteq> []" and "\<forall>c \<in> set tok. \<not> is_delim c"
    and "is_delim d"
  shows "fst (strtok_r (cbuf_of line) (Some (length subj + 1)) [CHR '' '', CHR 0x09] 0)
       = (subj @ CHR '':'' # ws @ tok) @ NUL # r' @ [NUL]"
proof -
  let ?r = "ws @ tok @ d # r'"
  have n: "NUL \<notin> set ?r" using assms(1,2) by simp
  have ps: "(case Some (length subj + 1) of None \<Rightarrow> 0 | Some i \<Rightarrow> i) = length (subj @ [CHR '':''])"
    by simp
  have buf: "cbuf_of line = (subj @ [CHR '':'']) @ ?r @ NUL # []"
    using assms(2) by (simp add: cbuf_of_def)
  obtain x xs where t: "tok = x # xs" using assms(4) by (cases tok) auto
  have nx: "\<not> is_delim x" using assms(5) t by simp
  have tw: "takeWhile is_delim ?r = ws"
    using assms(3) nx by (simp add: takeWhile_append2 t)
  have dw: "dropWhile is_delim ?r = tok @ d # r'"
    using assms(3) nx by (simp add: dropWhile_append2 t)
  have tw2: "takeWhile (\<lambda>ch. \<not> is_delim ch) (tok @ d # r') = tok"
    using assms(5,6) by (simp add: takeWhile_append2)
  have dw2: "dropWhile (\<lambda>ch. \<not> is_delim ch) (tok @ d # r') = d # r'"
    using assms(5,6) by (simp add: dropWhile_append2)
  show ?thesis
    unfolding buf strtok_r_spec [OF n ps] Let_def tw dw tw2 dw2 using t by simp
qed


section \<open>Alias lookup: release of the partial list\<close>

lemma unref_list_of_leaves:
  assumes "distinct l" and "\<forall>d \<in> set l. leaf s d"
  shows "\<exists>s'. kmod_module_unref_list s l = Some (s', 0) \<and>
     (\<forall>d \<in> set l. cell s' d = released s d) \<and>
     (\<forall>a. a \<notin> set l \<longrightarrow> cell s' a = cell s a) \<and>
     (\<forall>c. ctx_refs s' c = ctx_refs s c - int (length (filter (gives_back s c) l))) \<and>
     same_frame s s'"
proof (cases l)
  case Nil
  then show ?thesis by (simp add: kmod_module_unref_list_def)
next
  case (Cons d ds)
  then have "leaf s d" using assms(2) by simp
  then have "cell s d \<noteq> None" by (auto simp: leaf_def split: option.splits)
  then have "d < length (mods s)" by (auto dest: cell_live)
  then obtain k where k: "length (mods s) = Suc k" by (cases "length (mods s)") auto
  obtain s' where s': "unref_list_rec (Suc k) s l = Some s'"
     "\<forall>d \<in> set l. cell s' d = released s d"
     "\<forall>a. a \<notin> set l \<longrightarrow> cell s' a = cell s a"
     "\<forall>c. ctx_refs s' c = ctx_refs s c - int (length (filter (gives_back s c) l))"
     "same_frame s s'"
    using unref_list_leaves [OF assms, of k] by blast
  have "kmod_module_unref_list s l = Some (s', 0)"
    using s'(1) k by (simp add: kmod_module_unref_list_def)
  then show ?thesis using s'(2,3,4,5) by blast
qed

lemma lookup_fail_leaves:
  assumes "distinct l" and "\<forall>d \<in> set l. leaf s d"
  shows "\<exists>s'. lookup_fail s e l = Some (s', e, Some []) \<and>
     (\<forall>d \<in> set l. cell s' d = released s d) \<and>
     (\<forall>a. a \<notin> set l \<longrightarrow> cell s' a = cell s a) \<and>
     (\<forall>c. ctx_refs s' c = ctx_refs s c - int (length (filter (gives_back s c) l))) \<and>
     same_frame s s'"
proof -
  obtain s' where s': "kmod_module_unref_list s l = Some (s', 0)"
     "\<forall>d \<in> set l. cell s' d = released s d"
     "\<forall>a. a \<notin> set l \<longrightarrow> cell s' a = cell s a"
     "\<forall>c. ctx_refs s' c = ctx_refs s c - int (length (filter (gives_back s c) l))"
     "same_frame s s'"
    using unref_list_of_leaves [OF assms] by blast
  have "lookup_fail s e l = Some (s', e, Some [])"
    using s'(1) by (simp add: lookup_fail_def)
  then show ?thesis using s'(2,3,4,5) by blast
qed

text \<open>
  C5. With a context and an alias given and \<open>*list\<close> empty, the sources are asked in
  the order config, moddep file, symbols file, aliases file, each from the state the one
  before left. The first whose \<open>err\<close> is negative ends the call: the list it left is
  released through \<open>kmod_module_unref_list\<close>, \<open>*list\<close> becomes empty and its
  \<open>err\<close> is returned. The first that leaves a list that is not empty ends the call
  with that list and its \<open>err\<close>. When one source has decided, the outcome does not
  depend on what the later sources are: they are not called. When none finds anything
  the result is the empty list with the last, non-negative \<open>err\<close>. A list that is
  not empty on entry gives \<open>-ENOSYS\<close> and is left alone. Where the source that fails
  leaves a partial list of distinct handles without dependencies, the call returns, and
  in the state it returns every handle of that list has lost one reference: it is freed,
  its context reference given back, when that was its last one; no other cell has
  changed.
\<close>

theorem lookup_fallback_order:
  assumes "c \<noteq> None" and "alias \<noteq> None"
    and "from_config src s c alias [] = (s1, e1, l1)"
    and "from_moddep_file src s1 c alias [] = (s2, e2, l2)"
    and "from_symbols_file src s2 c alias [] = (s3, e3, l3)"
    and "from_aliases_file src s3 c alias [] = (s4, e4, l4)"
  shows "kmod_module_new_from_lookup src s c alias (Some []) =
     (if e1 < 0 then map_option (\<lambda>(s', r). (s', e1, Some [])) (kmod_module_unref_list s1 l1)
      else if l1 \<noteq> [] then Some (s1, e1, Some l1)
      else if e2 < 0 then map_option (\<lambda>(s', r). (s', e2, Some [])) (kmod_module_unref_list s2 l2)
      else if l2 \<noteq> [] then Some (s2, e2, Some l2)
      else if e3 < 0 then map_option (\<lambda>(s', r). (s', e3, Some [])) (kmod_module_unref_list s3 l3)
      else if l3 \<noteq> [] then Some (s3, e3, Some l3)
      else if e4 < 0 then map_option (\<lambda>(s', r). (s', e4, Some [])) (kmod_module_unref_list s4 l4)
      else Some (s4, e4, Some l4)) \<and>
   (e1 < 0 \<or> l1 \<noteq> [] \<longrightarrow>
      (\<forall>f2 f3 f4. kmod_module_new_from_lookup
          (src\<lparr>from_moddep_file := f2, from_symbols_file := f3, from_aliases_file := f4\<rparr>)
          s c alias (Some [])
        = kmod_module_new_from_lookup src s c alias (Some []))) \<and>
   (0 \<le> e1 \<and> l1 = [] \<and> (e2 < 0 \<or> l2 \<noteq> []) \<longrightarrow>
      (\<forall>f3 f4. kmod_module_new_from_lookup
          (src\<lparr>from_symbols_file := f3, from_aliases_file := f4\<rparr>) s c alias (Some [])
        = kmod_module_new_from_lookup src s c alias (Some []))) \<and>
   (0 \<le> e1 \<and> l1 = [] \<and> 0 \<le> e2 \<and> l2 = [] \<and> (e3 < 0 \<or> l3 \<noteq> []) \<longrightarrow>
      (\<forall>f4. kmod_module_new_from_lookup (src\<lparr>from_aliases_file := f4\<rparr>) s c alias (Some [])
        = kmod_module_new_from_lookup src s c alias (Some []))) \<and>
   (\<forall>x xs. kmod_module_new_from_lookup src s c alias (Some (x # xs))
        = Some (s, - ENOSYS, Some (x # xs))) \<and>
   (\<forall>si ei li.
      ((si, ei, li) = (s1, e1, l1) \<and> e1 < 0 \<or>
       (si, ei, li) = (s2, e2, l2) \<and> 0 \<le> e1 \<and> l1 = [] \<and> e2 < 0 \<or>
       (si, ei, li) = (s3, e3, l3) \<and> 0 \<le> e1 \<and> l1 = [] \<and> 0 \<le> e2 \<and> l2 = [] \<and> e3 < 0 \<or>
       (si, ei, li) = (s4, e4, l4) \<and> 0 \<le> e1 \<and> l1 = [] \<and> 0 \<le> e2 \<and> l2 = [] \<and>
          0 \<le> e3 \<and> l3 = [] \<and> e4 < 0) \<and>
      distinct li \<and> (\<forall>d \<in> set li. leaf si d) \<longrightarrow>
      (\<exists>s'. kmod_module_new_from_lookup src s c alias (Some []) = Some (s', ei, Some []) \<and>
         (\<forall>d \<in> set li. cell s' d = released si d) \<and>
         (\<forall>a. a \<notin> set li \<longrightarrow> cell s' a = cell si a) \<and>
         (\<forall>c'. ctx_refs s' c' = ctx_refs si c' - int (length (filter (gives_back si c') li))) \<and>
         same_frame si s'))"
proof (intro conjI impI allI)
  show "kmod_module_new_from_lookup src s c alias (Some []) =
     (if e1 < 0 then map_option (\<lambda>(s', r). (s', e1, Some [])) (kmod_module_unref_list s1 l1)
      else if l1 \<noteq> [] then Some (s1, e1, Some l1)
      else if e2 < 0 then map_option (\<lambda>(s', r). (s', e2, Some [])) (kmod_module_unref_list s2 l2)
      else if l2 \<noteq> [] then Some (s2, e2, Some l2)
      else if e3 < 0 then map_option (\<lambda>(s', r). (s', e3, Some [])) (kmod_module_unref_list s3 l3)
      else if l3 \<noteq> [] then Some (s3, e3, Some l3)
      else if e4 < 0 then map_option (\<lambda>(s', r). (s', e4, Some [])) (kmod_module_unref_list s4 l4)
      else Some (s4, e4, Some l4))"
    unfolding lookup_chain [OF assms] lookup_fail_map by (rule refl)
next
  fix f2 f3 f4
  assume d: "e1 < 0 \<or> l1 \<noteq> []"
  let ?src = "src\<lparr>from_moddep_file := f2, from_symbols_file := f3, from_aliases_file := f4\<rparr>"
  have "from_config ?src s c alias [] = (s1, e1, l1)" using assms(3) by simp
  then show "kmod_module_new_from_lookup ?src s c alias (Some [])
      = kmod_module_new_from_lookup src s c alias (Some [])"
    using lookup_first_decides [OF assms(1,2) _ d, of ?src s s1]
      lookup_first_decides [OF assms(1,2,3) d] by simp
next
  fix f3 f4
  assume d: "0 \<le> e1 \<and> l1 = [] \<and> (e2 < 0 \<or> l2 \<noteq> [])"
  let ?src = "src\<lparr>from_symbols_file := f3, from_aliases_file := f4\<rparr>"
  have a: "from_config ?src s c alias [] = (s1, e1, [])" "from_config src s c alias [] = (s1, e1, [])"
     "from_moddep_file ?src s1 c alias [] = (s2, e2, l2)"
    using assms(3,4) d by simp_all
  from d have d1: "0 \<le> e1" and d2: "e2 < 0 \<or> l2 \<noteq> []" by simp_all
  show "kmod_module_new_from_lookup ?src s c alias (Some [])
      = kmod_module_new_from_lookup src s c alias (Some [])"
    using lookup_second_decides [OF assms(1,2) a(1) d1 a(3) d2]
      lookup_second_decides [OF assms(1,2) a(2) d1 assms(4) d2] by simp
next
  fix f4
  assume d: "0 \<le> e1 \<and> l1 = [] \<and> 0 \<le> e2 \<and> l2 = [] \<and> (e3 < 0 \<or> l3 \<noteq> [])"
  let ?src = "src\<lparr>from_aliases_file := f4\<rparr>"
  have a: "from_config ?src s c alias [] = (s1, e1, [])" "from_config src s c alias [] = (s1, e1, [])"
     "from_moddep_file ?src s1 c alias [] = (s2, e2, [])" "from_moddep_file src s1 c alias [] = (s2, e2, [])"
     "from_symbols_file ?src s2 c alias [] = (s3, e3, l3)"
    using assms(3,4,5) d by simp_all
  from d have d1: "0 \<le> e1" and d2: "0 \<le> e2" and d3: "e3 < 0 \<or> l3 \<noteq> []" by simp_all
  show "kmod_module_new_from_lookup ?src s c alias (Some [])
      = kmod_module_new_from_lookup src s c alias (Some [])"
    using lookup_third_decides [OF assms(1,2) a(1) d1 a(3) d2 a(5) d3]
      lookup_third_decides [OF assms(1,2) a(2) d1 a(4) d2 assms(5) d3] by simp
next
  fix x xs
  show "kmod_module_new_from_lookup src s c alias (Some (x # xs)) = Some (s, - ENOSYS, Some (x # xs))"
    using assms(1,2) by (rule lookup_nonempty)
next
  fix si ei li
  assume h: "((si, ei, li) = (s1, e1, l1) \<and> e1 < 0 \<or>
       (si, ei, li) = (s2, e2, l2) \<and> 0 \<le> e1 \<and> l1 = [] \<and> e2 < 0 \<or>
       (si, ei, li) = (s3, e3, l3) \<and> 0 \<le> e1 \<and> l1 = [] \<and> 0 \<le> e2 \<and> l2 = [] \<and> e3 < 0 \<or>
       (si, ei, li) = (s4, e4, l4) \<and> 0 \<le> e1 \<and> l1 = [] \<and> 0 \<le> e2 \<and> l2 = [] \<and>
          0 \<le> e3 \<and> l3 = [] \<and> e4 < 0) \<and>
      distinct li \<and> (\<forall>d \<in> set li. leaf si d)"
  then have lv: "distinct li" "\<forall>d \<in> set li. leaf si d" by simp_all
  have "kmod_module_new_from_lookup src s c alias (Some []) = lookup_fail si ei li"
    unfolding lookup_chain [OF assms] using h by auto
  then show "\<exists>s'. kmod_module_new_from_lookup src s c alias (Some []) = Some (s', ei, Some []) \<and>
         (\<forall>d \<in> set li. cell s' d = released si d) \<and>
         (\<forall>a. a \<notin> set li \<longrightarrow> cell s' a = cell si a) \<and>
         (\<forall>c'. ctx_refs s' c' = ctx_refs si c' - int (length (filter (gives_back si c') li))) \<and>
         same_frame si s'"
    using lookup_fail_leaves [OF lv, of ei] by simp
qed

theorem lookup_fallback_order_witness:
  "kmod_module_new_from_lookup sample_sources init_state (Some 0) (Some ''alias'') (Some [])
     = Some (init_state, 2, Some [0, 1]) \<and>
   kmod_module_new_from_lookup sample_sources init_state (Some 0) (Some ''alias'') (Some [7])
     = Some (init_state, - ENOSYS, Some [7]) \<and>
   (\<exists>s'. kmod_module_new_from_lookup failing_sources init_state (Some 0) (Some ''alias'') (Some [])
       = Some (s', - ENOMEM, Some []) \<and>
      cell (dep_state init_state 0 [''a'', ''b'']) 0 = Some (holder_of (Some 0) ''a'') \<and>
      cell (dep_state init_state 0 [''a'', ''b'']) 1 = Some (holder_of (Some 0) ''b'') \<and>
      ctx_refs (dep_state init_state 0 [''a'', ''b'']) 0 = 3 \<and>
      cell s' 0 = None \<and> cell s' 1 = None \<and> ctx_refs s' 0 = 1)"
proof -
  have a: "from_config sample_sources init_state (Some 0) (Some ''alias'') [] = (init_state, 0, [])"
    "from_moddep_file sample_sources init_state (Some 0) (Some ''alias'') [] = (init_state, 0, [])"
    "from_symbols_file sample_sources init_state (Some 0) (Some ''alias'') [] = (init_state, 0, [])"
    "from_aliases_file sample_sources init_state (Some 0) (Some ''alias'') [] = (init_state, 2, [0, 1])"
    by (simp_all add: sample_sources_def no_match_def two_matches_def)
  have c: "Some (0::nat) \<noteq> None" "Some ''alias'' \<noteq> None" by simp_all
  have 1: "kmod_module_new_from_lookup sample_sources init_state (Some 0) (Some ''alias'') (Some [])
     = Some (init_state, 2, Some [0, 1]) \<and>
   kmod_module_new_from_lookup sample_sources init_state (Some 0) (Some ''alias'') (Some [7])
     = Some (init_state, - ENOSYS, Some [7])"
    using lookup_fallback_order [OF c a] by simp
  let ?s2 = "dep_state init_state 0 [''a'', ''b'']"
  have b: "from_config failing_sources init_state (Some 0) (Some ''alias'') [] = (init_state, 0, [])"
    "from_moddep_file failing_sources init_state (Some 0) (Some ''alias'') [] = (?s2, - ENOMEM, [0, 1])"
    "from_symbols_file failing_sources ?s2 (Some 0) (Some ''alias'') [] = (?s2, 0, [])"
    "from_aliases_file failing_sources ?s2 (Some 0) (Some ''alias'') [] = (?s2, 2, [0, 1])"
    by (simp_all add: failing_sources_def sample_sources_def no_match_def two_matches_def
          found_then_failed_def init_state_def)
  have cells: "cell ?s2 0 = Some (holder_of (Some 0) ''a'')" "cell ?s2 1 = Some (holder_of (Some 0) ''b'')"
    "ctx_refs ?s2 0 = 3"
    by (simp_all add: cell_def init_state_def dep_state_def)
  have lf: "\<forall>d \<in> set [0, 1]. leaf ?s2 d"
    using cells by (simp add: leaf_def holder_of_def)
  have rel: "released ?s2 0 = None" "released ?s2 1 = None"
    using cells by (simp_all add: released_def holder_of_def still_referenced_def)
  have gb: "filter (gives_back ?s2 0) [0, 1] = [0, 1]"
    using cells by (simp add: gives_back_def holder_of_def still_referenced_def)
  have "((?s2, - ENOMEM, [0, 1]) = (init_state, 0, []) \<and> (0::int) < 0 \<or>
       (?s2, - ENOMEM, [0, 1]) = (?s2, - ENOMEM, [0, 1]) \<and> (0::int) \<le> 0 \<and> ([]::nat list) = [] \<and> - ENOMEM < 0 \<or>
       (?s2, - ENOMEM, [0, 1]) = (?s2, 0, []) \<and> (0::int) \<le> 0 \<and> ([]::nat list) = [] \<and> 0 \<le> - ENOMEM \<and> [0, 1::nat] = [] \<and> (0::int) < 0 \<or>
       (?s2, - ENOMEM, [0, 1]) = (?s2, 2, [0, 1]) \<and> (0::int) \<le> 0 \<and> ([]::nat list) = [] \<and> 0 \<le> - ENOMEM \<and> [0, 1::nat] = [] \<and>
          (0::int) \<le> 0 \<and> ([]::nat list) = [] \<and> (2::int) < 0) \<and>
      distinct [0, 1::nat] \<and> (\<forall>d \<in> set [0, 1]. leaf ?s2 d)"
    using lf by (simp add: ENOMEM_def)
  from lookup_fallback_order [OF c b, THEN conjunct2, THEN conjunct2, THEN conjunct2,
      THEN conjunct2, THEN conjunct2, rule_format, OF this]
  obtain s' where s': "kmod_module_new_from_lookup failing_sources init_state (Some 0) (Some ''alias'') (Some [])
       = Some (s', - ENOMEM, Some [])"
    "\<forall>d \<in> set [0, 1]. cell s' d = released ?s2 d"
    "\<forall>c'. ctx_refs s' c' = ctx_refs ?s2 c' - int (length (filter (gives_back ?s2 c') [0, 1]))"
    by blast
  have "cell s' 0 = None" "cell s' 1 = None" using s'(2) rel by simp_all
  moreover have "ctx_refs s' 0 = 1" using s'(3) [rule_format, of 0] gb cells(3) by simp
  ultimately show ?thesis using 1 s'(1) cells by simp
qed


section \<open>Dependency lines: a list node that cannot be allocated\<close>

text \<open>
  C3 fails on the code where \<open>kmod_list_append\<close> has failed before the construction that
  fails: \<open>kmod_module_parse_dep\<close> does not test its result, as
  \<open>kmod_module_get_holders\<close> does, and the list is lost. On the line \<open>mod: a b c\<close> with
  the list node for \<open>b\<close> and the handle for \<open>c\<close> refused, the call returns
  \<open>-ENOMEM\<close> with the guard reset and no dependency list, but the handles for \<open>a\<close> and
  \<open>b\<close> are still allocated, each with its one reference, and the context is still
  referenced three times where it was referenced once before the call. With the handle
  for \<open>c\<close> alone refused, both handles are freed and the context is back at one
  reference.
\<close>

theorem parse_dep_leaks_after_failed_append:
  "map_option (snd \<circ> snd) (kmod_module_parse_dep starved_state 0 (cbuf_of ''mod: a b c''))
     = Some (- ENOMEM) \<and>
   map_option (mods \<circ> fst) (kmod_module_parse_dep starved_state 0 (cbuf_of ''mod: a b c''))
     = Some [Some named_handle, Some (holder_of (Some 0) ''a''), Some (holder_of (Some 0) ''b'')] \<and>
   ctx_refs starved_state 0 = 1 \<and>
   ctx_refs (fst (the (kmod_module_parse_dep starved_state 0 (cbuf_of ''mod: a b c'')))) 0 = 3 \<and>
   map_option (snd \<circ> snd) (kmod_module_parse_dep short_state 0 (cbuf_of ''mod: a b c''))
     = Some (- ENOMEM) \<and>
   map_option (mods \<circ> fst) (kmod_module_parse_dep short_state 0 (cbuf_of ''mod: a b c''))
     = Some [Some named_handle, None, None] \<and>
   ctx_refs (fst (the (kmod_module_parse_dep short_state 0 (cbuf_of ''mod: a b c'')))) 0 = 1"
  by code_simp


section \<open>Dependency lines: the caller's buffer\<close>

lemma inplace_token_unchanged:
  "inplace_token tok = tok \<longleftrightarrow>
     (\<forall>c \<in> set (last_component tok). c \<noteq> CHR ''-'' \<and> c \<noteq> CHR ''.'')"
proof -
  let ?lc = "last_component tok"
  let ?tw = "takeWhile (\<lambda>x. x \<noteq> CHR ''.'') ?lc"
  let ?dw = "dropWhile (\<lambda>x. x \<noteq> CHR ''.'') ?lc"
  let ?S = "case ?dw of [] \<Rightarrow> [] | x # xs \<Rightarrow> NUL # xs"
  obtain d where d: "tok = d @ ?lc" using last_component_split [of tok] by blast
  have it: "inplace_token tok = d @ modname_of ?lc @ ?S"
    using d by (rule inplace_token_split)
  have "(inplace_token tok = tok) = (d @ modname_of ?lc @ ?S = tok)"
    by (simp only: it)
  also have "\<dots> = (d @ modname_of ?lc @ ?S = d @ ?lc)"
    by (rule arg_cong [where f = "(=) (d @ modname_of ?lc @ ?S)"]) (rule d)
  also have "\<dots> = (modname_of ?lc @ ?S = ?lc)"
    by (rule same_append_eq)
  also have "\<dots> = (modname_of ?lc @ ?S = ?tw @ ?dw)"
    by (simp only: takeWhile_dropWhile_id)
  also have "\<dots> = (modname_of ?lc = ?tw \<and> ?S = ?dw)"
    by (rule append_eq_append_conv) (simp add: length_modname_of)
  finally have c1: "(inplace_token tok = tok) = (modname_of ?lc = ?tw \<and> ?S = ?dw)" .
  have c2: "(?S = ?dw) = (?dw = [])"
  proof (cases ?dw)
    case Nil
    show ?thesis unfolding Nil by simp
  next
    case (Cons x xs)
    then have "x = CHR ''.''" using hd_dropWhile [of "\<lambda>x. x \<noteq> CHR ''.''" ?lc] by simp
    then show ?thesis using Cons by (simp add: NUL_def)
  qed
  have c3: "(modname_of ?lc = ?tw \<and> ?dw = []) =
      (\<forall>c \<in> set ?lc. c \<noteq> CHR ''-'' \<and> c \<noteq> CHR ''.'')"
  proof
    assume a: "modname_of ?lc = ?tw \<and> ?dw = []"
    then have nd: "\<forall>c \<in> set ?lc. c \<noteq> CHR ''.''" by (simp add: dropWhile_eq_Nil_conv)
    then have tl: "?tw = ?lc" by (simp add: takeWhile_eq_all_conv)
    from a have "map underscore ?tw = ?tw" by (simp add: modname_of_def)
    then have "map underscore ?lc = map (\<lambda>x. x) ?lc" unfolding tl by simp
    then have "\<forall>c \<in> set ?lc. underscore c = c" unfolding map_eq_conv .
    then have "\<forall>c \<in> set ?lc. c \<noteq> CHR ''-''" by (auto simp: underscore_def split: if_splits)
    then show "\<forall>c \<in> set ?lc. c \<noteq> CHR ''-'' \<and> c \<noteq> CHR ''.''" using nd by simp
  next
    assume a: "\<forall>c \<in> set ?lc. c \<noteq> CHR ''-'' \<and> c \<noteq> CHR ''.''"
    then have 1: "?dw = []" and 2: "?tw = ?lc"
      by (simp_all add: dropWhile_eq_Nil_conv takeWhile_eq_all_conv)
    have m: "map underscore ?lc = ?lc"
      using a by (intro map_idI) (simp add: underscore_def)
    have "modname_of ?lc = ?tw" unfolding modname_of_def 2 by (rule m)
    then show "modname_of ?lc = ?tw \<and> ?dw = []" using 1 by (rule conjI)
  qed
  show ?thesis unfolding c1 c2 c3 by (rule refl)
qed

lemma dep_loop_single_token:
  assumes "NUL \<notin> set ws" and "NUL \<notin> set tok"
    and "\<forall>c \<in> set ws. is_delim c" and "tok \<noteq> []" and "\<forall>c \<in> set tok. \<not> is_delim c"
  shows "\<exists>res. dep_loop s c ((pre @ ws) @ tok @ [NUL]) (Some (length pre)) sp [] 0 = Some res \<and>
     (case res of Inl (s', b, l, e) \<Rightarrow> b | Inr (s', b, l, n) \<Rightarrow> b)
       = (pre @ ws) @ (if last_component tok = [] then tok else inplace_token tok) @ [NUL]"
proof -
  let ?B = "(pre @ ws) @ tok @ [NUL]"
  let ?D = "[CHR '' '', CHR 0x09]"
  let ?r = "ws @ tok"
  have n: "NUL \<notin> set ?r" using assms(1,2) by simp
  have ps: "(case Some (length pre) of None \<Rightarrow> sp | Some i \<Rightarrow> i) = length pre" by simp
  obtain x xs where t: "tok = x # xs" using assms(4) by (cases tok) auto
  have nx: "\<not> is_delim x" using assms(5) t by simp
  have tw: "takeWhile is_delim ?r = ws" using assms(3) nx by (simp add: takeWhile_append2 t)
  have dw: "dropWhile is_delim ?r = tok" using assms(3) nx by (simp add: dropWhile_append2 t)
  have tw2: "takeWhile (\<lambda>ch. \<not> is_delim ch) tok = tok"
    using assms(5) by (simp add: takeWhile_eq_all_conv)
  have dw2: "dropWhile (\<lambda>ch. \<not> is_delim ch) tok = []"
    using assms(5) by (simp add: dropWhile_eq_Nil_conv)
  have buf: "?B = pre @ ?r @ NUL # []" by simp
  have st: "strtok_r ?B (Some (length pre)) ?D sp = (?B, Some (length (pre @ ws)), length (pre @ ?r))"
    unfolding buf strtok_r_spec [OF n ps] Let_def tw dw tw2 dw2 using t by simp
  have pm: "path_to_modname s ?B (length (pre @ ws)) False =
     (if last_component tok = [] then Some (s, ?B, None)
      else Some (s, (pre @ ws) @ inplace_token tok @ NUL # [], Some (modname_of (last_component tok))))"
    using path_to_modname_token [OF assms(2), of s "pre @ ws" "[]"] by simp
  show ?thesis
  proof (cases "last_component tok = []")
    case True
    have nn: "kmod_module_new_from_name s c None = (s, - ENOENT, None)"
      by (simp add: kmod_module_new_from_name_def)
    have "dep_loop s c ?B (Some (length pre)) sp [] 0 = Some (Inl (s, ?B, [], - ENOENT))"
      using st pm True nn by (intro dep_loop_fail [where ?s1.0 = s and modname = None and depmod = None])
        (simp_all add: ENOENT_def)
    then show ?thesis using True by simp
  next
    case False
    let ?b2 = "(pre @ ws) @ inplace_token tok @ NUL # []"
    let ?nm = "Some (modname_of (last_component tok))"
    have pm2: "path_to_modname s ?B (length (pre @ ws)) False = Some (s, ?b2, ?nm)"
      using pm False by simp
    obtain s2 err depmod where nn: "kmod_module_new_from_name s c ?nm = (s2, err, depmod)"
      by (cases "kmod_module_new_from_name s c ?nm") auto
    show ?thesis
    proof (cases "err < 0")
      case True
      have "dep_loop s c ?B (Some (length pre)) sp [] 0 = Some (Inl (s2, ?b2, [], err))"
        using st pm2 nn True by (rule dep_loop_fail)
      then show ?thesis using False by simp
    next
      case ge: False
      obtain s3 l' where ap: "kmod_list_append s2 [] (the depmod) = (s3, l')"
        by (cases "kmod_list_append s2 [] (the depmod)") auto
      have nx: "dep_loop s c ?B (Some (length pre)) sp [] 0
          = dep_loop s3 c ?b2 None (length (pre @ ?r)) l' (0 + 1)"
        using st pm2 nn ge ap by (rule dep_loop_next)
      have ln: "length (pre @ ?r) = length ((pre @ ws) @ inplace_token tok)"
        by (simp add: length_inplace_token)
      have tn: "tokens [] = []" by (simp add: tokens_Nil)
      have "strtok_r (((pre @ ws) @ inplace_token tok) @ [] @ NUL # []) None ?D (length (pre @ ?r))
          = (((pre @ ws) @ inplace_token tok) @ [] @ NUL # [], None,
             length ((pre @ ws) @ inplace_token tok) + length ([] :: string))"
        by (rule strtok_r_no_token) (simp_all add: length_inplace_token tn del: append_assoc)
      then have "strtok_r ?b2 None ?D (length (pre @ ?r))
          = (?b2, None, length ((pre @ ws) @ inplace_token tok) + length ([] :: string))"
        by simp
      then have "dep_loop s3 c ?b2 None (length (pre @ ?r)) l' (0 + 1) = Some (Inr (s3, ?b2, l', 0 + 1))"
        by (rule dep_loop_done)
      then show ?thesis using nx False by simp
    qed
  qed
qed

lemma parse_dep_buffer_of_loop:
  assumes "cell s md = Some m" and "\<not> init_dep m" and "dep m = []"
    and "strchr line 0 (CHR '':'') = Some p"
    and "dep_loop (upd_cell s md (\<lambda>m. m\<lparr>init_dep := True\<rparr>)) (ctx m) line (Some (p + 1)) 0 [] 0 = Some res"
    and "kmod_module_parse_dep s md line = Some (s2, b, r)"
  shows "b = (case res of Inl (s', b', l, e) \<Rightarrow> b' | Inr (s', b', l, n) \<Rightarrow> b')"
  using assms
  by (auto simp: kmod_module_parse_dep_def split: option.splits sum.splits prod.splits)

lemma cstr_eq_line:
  assumes "NUL \<notin> set line" and "length b = length line + 1" and "peek b (length line) = NUL"
  shows "cstr b 0 = line \<longleftrightarrow> b = cbuf_of line"
proof
  assume a: "cstr b 0 = line"
  let ?P = "\<lambda>c. c \<noteq> NUL"
  have "takeWhile ?P b = take (length (takeWhile ?P b)) b" by (rule takeWhile_eq_take)
  then have tk: "take (length line) b = line" using a by (simp add: cstr_def)
  have "length (drop (length line) b) = 1" using assms(2) by simp
  then obtain y where y: "drop (length line) b = [y]"
    by (cases "drop (length line) b") auto
  have "y = b ! length line"
    using y assms(2) hd_drop_conv_nth [of "length line" b] by simp
  then have "y = NUL" using assms(2,3) by (simp add: peek_def)
  then have "b = line @ [NUL]"
    using append_take_drop_id [of "length line" b] tk y by simp
  then show "b = cbuf_of line" by (simp add: cbuf_of_def)
next
  assume "b = cbuf_of line"
  then show "cstr b 0 = line" using cstr_cbuf_of [OF assms(1)] by simp
qed

text \<open>
  C10, amended. For a handle in the not-started state and a line with a token after the
  first colon: \<open>kmod_module_parse_dep\<close> returns, with a count or with a failure, and the
  buffer keeps its length. It is left as it was exactly when the first token ends at the
  terminator and its final path component has neither \<open>-\<close> nor \<open>.\<close>; in every other
  case it differs from the original, and the string it holds is the original line only
  when the buffer is unchanged. Where a space or a tab follows the first token, that
  character is now NUL and the string the buffer holds ends at or before the end of the
  first token. Where the first token ends at the terminator, the buffer holds
  the line with the token as \<open>path_to_modname\<close> rewrites it in place (the token itself
  when its final component is empty).
\<close>

theorem parse_dep_buffer_changed_iff:
  assumes "cell s md = Some m" and "\<not> init_dep m" and "dep m = []"
    and "NUL \<notin> set line" and "line = subj @ CHR '':'' # ws @ tok @ rest"
    and "CHR '':'' \<notin> set subj"
    and "\<forall>c \<in> set ws. is_delim c" and "tok \<noteq> []" and "\<forall>c \<in> set tok. \<not> is_delim c"
    and "rest = [] \<or> is_delim (hd rest)"
  shows "\<exists>s2 b r. kmod_module_parse_dep s md (cbuf_of line) = Some (s2, b, r) \<and>
     length b = length (cbuf_of line) \<and>
     (b = cbuf_of line \<longleftrightarrow>
        rest = [] \<and> (\<forall>c \<in> set (last_component tok). c \<noteq> CHR ''-'' \<and> c \<noteq> CHR ''.'')) \<and>
     (cstr b 0 = line \<longleftrightarrow> b = cbuf_of line) \<and>
     (rest \<noteq> [] \<longrightarrow>
        peek b (length (subj @ CHR '':'' # ws @ tok)) = NUL \<and>
        length (cstr b 0) \<le> length (subj @ CHR '':'' # ws @ tok)) \<and>
     (rest = [] \<longrightarrow>
        b = cbuf_of (subj @ CHR '':'' # ws @
               (if last_component tok = [] then tok else inplace_token tok)))"
proof -
  let ?e = "length (subj @ CHR '':'' # ws @ tok)"
  let ?D = "[CHR '' '', CHR 0x09]"
  let ?B1 = "fst (strtok_r (cbuf_of line) (Some (length subj + 1)) ?D 0)"
  let ?s0 = "upd_cell s md (\<lambda>m. m\<lparr>init_dep := True\<rparr>)"
  let ?Y = "if last_component tok = [] then tok else inplace_token tok"
  obtain s2 b r where o: "kmod_module_parse_dep s md (cbuf_of line) = Some (s2, b, r)"
    and len: "length b = length (cbuf_of line)"
    and nul: "\<forall>p i. strchr (cbuf_of line) 0 (CHR '':'') = Some p \<and>
         peek (fst (strtok_r (cbuf_of line) (Some (p + 1)) ?D 0)) i = NUL
         \<longrightarrow> peek b i = NUL"
    using parse_dep_outcome [OF assms(1,2,3), of "cbuf_of line"] by blast
  have tw: "takeWhile (\<lambda>c. c \<noteq> CHR '':'') line = subj"
    unfolding assms(5) using assms(6) by simp
  have mem: "CHR '':'' \<in> set line" unfolding assms(5) by simp
  have sc: "strchr (cbuf_of line) 0 (CHR '':'') = Some (length subj)"
    unfolding strchr_colon [OF assms(4)] tw using mem by simp
  have keep: "\<And>i. peek ?B1 i = NUL \<Longrightarrow> peek b i = NUL"
    using nul sc by blast
  obtain t1 sp1 where st: "strtok_r (cbuf_of line) (Some (length subj + 1)) ?D 0 = (?B1, t1, sp1)"
    by (cases "strtok_r (cbuf_of line) (Some (length subj + 1)) ?D 0") auto
  have "peek (cbuf_of line) (length line) = NUL" by (simp add: cbuf_of_def)
  then have "peek ?B1 (length line) = NUL"
    using strtok_r_buffer [OF st] by blast
  then have tm: "peek b (length line) = NUL" by (rule keep)
  have len2: "length b = length line + 1" using len by (simp add: cbuf_of_def)
  have cs: "cstr b 0 = line \<longleftrightarrow> b = cbuf_of line"
    using assms(4) len2 tm by (rule cstr_eq_line)
  have n: "NUL \<notin> set ws" "NUL \<notin> set tok" using assms(4) unfolding assms(5) by auto
  show ?thesis
  proof (cases "rest = []")
    case True
    have buf: "cbuf_of line = ((subj @ [CHR '':'']) @ ws) @ tok @ [NUL]"
      unfolding cbuf_of_def assms(5) using True by simp
    have lp: "length (subj @ [CHR '':'']) = length subj + 1" by simp
    obtain res where res: "dep_loop ?s0 (ctx m) (((subj @ [CHR '':'']) @ ws) @ tok @ [NUL])
          (Some (length (subj @ [CHR '':'']))) 0 [] 0 = Some res"
      "(case res of Inl (s', b, l, e) \<Rightarrow> b | Inr (s', b, l, n) \<Rightarrow> b)
         = ((subj @ [CHR '':'']) @ ws) @ ?Y @ [NUL]"
      using dep_loop_single_token [OF n assms(7,8,9), of ?s0 "ctx m" "subj @ [CHR '':'']" 0]
      by blast
    have res': "dep_loop ?s0 (ctx m) (cbuf_of line) (Some (length subj + 1)) 0 [] 0 = Some res"
      using res(1) unfolding buf lp .
    have "b = (case res of Inl (s', b', l, e) \<Rightarrow> b' | Inr (s', b', l, n) \<Rightarrow> b')"
      using assms(1,2,3) sc res' o by (rule parse_dep_buffer_of_loop)
    then have b1: "b = ((subj @ [CHR '':'']) @ ws) @ ?Y @ [NUL]" using res(2) by simp
    then have b2: "b = cbuf_of (subj @ CHR '':'' # ws @ ?Y)" by (simp add: cbuf_of_def)
    have "b = cbuf_of line \<longleftrightarrow> ?Y = tok"
      unfolding b1 buf by simp
    also have "\<dots> \<longleftrightarrow> (\<forall>c \<in> set (last_component tok). c \<noteq> CHR ''-'' \<and> c \<noteq> CHR ''.'')"
    proof (cases "last_component tok = []")
      case e: True
      show ?thesis unfolding e by simp
    next
      case False
      then show ?thesis using inplace_token_unchanged [of tok] by simp
    qed
    finally have iff: "b = cbuf_of line \<longleftrightarrow>
        rest = [] \<and> (\<forall>c \<in> set (last_component tok). c \<noteq> CHR ''-'' \<and> c \<noteq> CHR ''.'')"
      using True by simp
    show ?thesis using o len iff cs b2 True by blast
  next
    case False
    then obtain d r' where rs: "rest = d # r'" by (cases rest) auto
    then have dl: "is_delim d" using assms(10) by simp
    have l5: "line = subj @ CHR '':'' # ws @ tok @ d # r'" using assms(5) rs by simp
    have "peek ?B1 ?e = NUL"
      unfolding first_strtok [OF assms(4) l5 assms(7,8,9) dl] by (rule peek_append_length)
    then have pb: "peek b ?e = NUL" by (rule keep)
    have "cbuf_of line = (subj @ CHR '':'' # ws @ tok) @ d # r' @ [NUL]"
      unfolding cbuf_of_def l5 by simp
    then have "peek (cbuf_of line) ?e = peek ((subj @ CHR '':'' # ws @ tok) @ d # r' @ [NUL]) ?e"
      by simp
    also have "\<dots> = d" by (rule peek_append_length)
    finally have pl: "peek (cbuf_of line) ?e = d" .
    have dn: "d \<noteq> NUL" using assms(4) unfolding l5 by auto
    have ne: "b \<noteq> cbuf_of line" using pb pl dn by auto
    have "?e < length line" unfolding l5 by simp
    then have el: "?e < length b" using len2 by simp
    moreover from this have "b ! ?e = NUL" using pb by (simp add: peek_def)
    ultimately have cl: "length (cstr b 0) \<le> ?e" by (rule cstr_cut)
    show ?thesis using o len ne cs pb cl False by blast
  qed
qed

theorem parse_dep_buffer_changed_iff_witness:
  "(\<exists>s2 b. kmod_module_parse_dep named_state 0 (cbuf_of ''mod: a b'') = Some (s2, b, 2) \<and>
       peek b 6 = NUL \<and> b \<noteq> cbuf_of ''mod: a b'' \<and> cstr b 0 \<noteq> ''mod: a b'') \<and>
   (\<exists>s2 b. kmod_module_parse_dep named_state 0 (cbuf_of ''mod: a b/'') = Some (s2, b, - ENOENT) \<and>
       peek b 6 = NUL \<and> b \<noteq> cbuf_of ''mod: a b/'' \<and> cstr b 0 \<noteq> ''mod: a b/'') \<and>
   (\<exists>s2. kmod_module_parse_dep named_state 0 (cbuf_of ''mod: a-b'')
       = Some (s2, cbuf_of ''mod: a_b'', 1)) \<and>
   (\<exists>s2. kmod_module_parse_dep named_state 0 (cbuf_of ''mod: kernel/fs/ext4.ko'')
       = Some (s2, cbuf_of (''mod: kernel/fs/ext4'' @ NUL # ''ko''), 1)) \<and>
   (\<exists>s2. kmod_module_parse_dep named_state 0 (cbuf_of ''mod: a/'')
       = Some (s2, cbuf_of ''mod: a/'', - ENOENT)) \<and>
   (\<exists>s2. kmod_module_parse_dep named_state 0 (cbuf_of ''mod: a'')
       = Some (s2, cbuf_of ''mod: a'', 1))"
proof -
  have h: "cell named_state 0 = Some named_handle" "\<not> init_dep named_handle"
    "dep named_handle = []"
    by (simp_all add: cell_def named_state_def named_handle_def init_state_def)
  have n: "NUL \<notin> set ''mod: a b''" "NUL \<notin> set ''mod: a b/''" "NUL \<notin> set ''mod: a-b''"
    "NUL \<notin> set ''mod: kernel/fs/ext4.ko''" "NUL \<notin> set ''mod: a/''" "NUL \<notin> set ''mod: a''"
    by (simp_all add: NUL_def)
  have d: "''mod: a b'' = ''mod'' @ CHR '':'' # '' '' @ ''a'' @ '' b''"
    "''mod: a b/'' = ''mod'' @ CHR '':'' # '' '' @ ''a'' @ '' b/''"
    "''mod: a-b'' = ''mod'' @ CHR '':'' # '' '' @ ''a-b'' @ []"
    "''mod: kernel/fs/ext4.ko'' = ''mod'' @ CHR '':'' # '' '' @ ''kernel/fs/ext4.ko'' @ []"
    "''mod: a/'' = ''mod'' @ CHR '':'' # '' '' @ ''a/'' @ []"
    "''mod: a'' = ''mod'' @ CHR '':'' # '' '' @ ''a'' @ []"
    by simp_all
  have c: "CHR '':'' \<notin> set ''mod''" "\<forall>c \<in> set '' ''. is_delim c" by (simp_all add: is_delim_def)
  have t: "''a'' \<noteq> []" "\<forall>c \<in> set ''a''. \<not> is_delim c"
    "''a-b'' \<noteq> []" "\<forall>c \<in> set ''a-b''. \<not> is_delim c"
    "''kernel/fs/ext4.ko'' \<noteq> []" "\<forall>c \<in> set ''kernel/fs/ext4.ko''. \<not> is_delim c"
    "''a/'' \<noteq> []" "\<forall>c \<in> set ''a/''. \<not> is_delim c"
    by (simp_all add: is_delim_def)
  have r: "'' b'' = [] \<or> is_delim (hd '' b'')" "'' b/'' = [] \<or> is_delim (hd '' b/'')"
    "([] :: string) = [] \<or> is_delim (hd [])"
    by (simp_all add: is_delim_def)
  have e6: "length (''mod'' @ CHR '':'' # '' '' @ ''a'') = 6" by simp
  have v: "map_option (snd \<circ> snd) (kmod_module_parse_dep named_state 0 (cbuf_of ''mod: a b'')) = Some 2"
    "map_option (snd \<circ> snd) (kmod_module_parse_dep named_state 0 (cbuf_of ''mod: a b/'')) = Some (- ENOENT)"
    "map_option (snd \<circ> snd) (kmod_module_parse_dep named_state 0 (cbuf_of ''mod: a-b'')) = Some 1"
    "map_option (snd \<circ> snd) (kmod_module_parse_dep named_state 0 (cbuf_of ''mod: kernel/fs/ext4.ko'')) = Some 1"
    "map_option (snd \<circ> snd) (kmod_module_parse_dep named_state 0 (cbuf_of ''mod: a/'')) = Some (- ENOENT)"
    "map_option (snd \<circ> snd) (kmod_module_parse_dep named_state 0 (cbuf_of ''mod: a'')) = Some 1"
    by code_simp+
  have lc: "last_component ''a-b'' \<noteq> []" "last_component ''kernel/fs/ext4.ko'' \<noteq> []"
    "last_component ''a/'' = []" "last_component ''a'' \<noteq> []"
    by code_simp+
  have it: "inplace_token ''a-b'' = ''a_b''"
    "inplace_token ''kernel/fs/ext4.ko'' = ''kernel/fs/ext4'' @ NUL # ''ko''"
    "inplace_token ''a'' = ''a''"
    by code_simp+
  have 1: "\<exists>s2 b. kmod_module_parse_dep named_state 0 (cbuf_of ''mod: a b'') = Some (s2, b, 2) \<and>
       peek b 6 = NUL \<and> b \<noteq> cbuf_of ''mod: a b'' \<and> cstr b 0 \<noteq> ''mod: a b''"
  proof -
    from parse_dep_buffer_changed_iff [OF h n(1) d(1) c t(1,2) r(1), unfolded e6]
    obtain s2 b r where x: "kmod_module_parse_dep named_state 0 (cbuf_of ''mod: a b'') = Some (s2, b, r)"
      "(b = cbuf_of ''mod: a b'') = ('' b'' = [] \<and>
          (\<forall>c \<in> set (last_component ''a''). c \<noteq> CHR ''-'' \<and> c \<noteq> CHR ''.''))"
      "(cstr b 0 = ''mod: a b'') = (b = cbuf_of ''mod: a b'')"
      "'' b'' \<noteq> [] \<longrightarrow> peek b 6 = NUL \<and> length (cstr b 0) \<le> 6"
      by blast
    have r: "r = 2" using x(1) v(1) by simp
    have p: "peek b 6 = NUL" using x(4) by simp
    have ne: "b \<noteq> cbuf_of ''mod: a b''" using x(2) by simp
    have cn: "cstr b 0 \<noteq> ''mod: a b''" using x(3) ne by simp
    show ?thesis
      apply (rule exI [of _ s2], rule exI [of _ b])
      using x(1) r p ne cn by simp
  qed
  have 2: "\<exists>s2 b. kmod_module_parse_dep named_state 0 (cbuf_of ''mod: a b/'') = Some (s2, b, - ENOENT) \<and>
       peek b 6 = NUL \<and> b \<noteq> cbuf_of ''mod: a b/'' \<and> cstr b 0 \<noteq> ''mod: a b/''"
  proof -
    from parse_dep_buffer_changed_iff [OF h n(2) d(2) c t(1,2) r(2), unfolded e6]
    obtain s2 b r where x: "kmod_module_parse_dep named_state 0 (cbuf_of ''mod: a b/'') = Some (s2, b, r)"
      "(b = cbuf_of ''mod: a b/'') = ('' b/'' = [] \<and>
          (\<forall>c \<in> set (last_component ''a''). c \<noteq> CHR ''-'' \<and> c \<noteq> CHR ''.''))"
      "(cstr b 0 = ''mod: a b/'') = (b = cbuf_of ''mod: a b/'')"
      "'' b/'' \<noteq> [] \<longrightarrow> peek b 6 = NUL \<and> length (cstr b 0) \<le> 6"
      by blast
    have r: "r = - ENOENT" using x(1) v(2) by simp
    have p: "peek b 6 = NUL" using x(4) by simp
    have ne: "b \<noteq> cbuf_of ''mod: a b/''" using x(2) by simp
    have cn: "cstr b 0 \<noteq> ''mod: a b/''" using x(3) ne by simp
    show ?thesis
      apply (rule exI [of _ s2], rule exI [of _ b])
      using x(1) r p ne cn by simp
  qed
  have 3: "\<exists>s2. kmod_module_parse_dep named_state 0 (cbuf_of ''mod: a-b'')
       = Some (s2, cbuf_of ''mod: a_b'', 1)"
  proof -
    from parse_dep_buffer_changed_iff [OF h n(3) d(3) c t(3,4) r(3)]
    obtain s2 b r where x: "kmod_module_parse_dep named_state 0 (cbuf_of ''mod: a-b'') = Some (s2, b, r)"
      "([] :: string) = [] \<longrightarrow> b = cbuf_of (''mod'' @ CHR '':'' # '' '' @
          (if last_component ''a-b'' = [] then ''a-b'' else inplace_token ''a-b''))"
      by (elim exE conjE) (rule that)
    have r: "r = 1" using x(1) v(3) by simp
    have b: "b = cbuf_of ''mod: a_b''" using x(2) lc(1) it(1) by simp
    show ?thesis
      apply (rule exI [of _ s2])
      using x(1) r b by simp
  qed
  have 4: "\<exists>s2. kmod_module_parse_dep named_state 0 (cbuf_of ''mod: kernel/fs/ext4.ko'')
       = Some (s2, cbuf_of (''mod: kernel/fs/ext4'' @ NUL # ''ko''), 1)"
  proof -
    from parse_dep_buffer_changed_iff [OF h n(4) d(4) c t(5,6) r(3)]
    obtain s2 b r where x: "kmod_module_parse_dep named_state 0 (cbuf_of ''mod: kernel/fs/ext4.ko'') = Some (s2, b, r)"
      "([] :: string) = [] \<longrightarrow> b = cbuf_of (''mod'' @ CHR '':'' # '' '' @
          (if last_component ''kernel/fs/ext4.ko'' = [] then ''kernel/fs/ext4.ko'' else inplace_token ''kernel/fs/ext4.ko''))"
      by (elim exE conjE) (rule that)
    have r: "r = 1" using x(1) v(4) by simp
    have b: "b = cbuf_of (''mod: kernel/fs/ext4'' @ NUL # ''ko'')" using x(2) lc(2) it(2) by simp
    show ?thesis
      apply (rule exI [of _ s2])
      using x(1) r b by simp
  qed
  have 5: "\<exists>s2. kmod_module_parse_dep named_state 0 (cbuf_of ''mod: a/'')
       = Some (s2, cbuf_of ''mod: a/'', - ENOENT)"
  proof -
    from parse_dep_buffer_changed_iff [OF h n(5) d(5) c t(7,8) r(3)]
    obtain s2 b r where x: "kmod_module_parse_dep named_state 0 (cbuf_of ''mod: a/'') = Some (s2, b, r)"
      "([] :: string) = [] \<longrightarrow> b = cbuf_of (''mod'' @ CHR '':'' # '' '' @
          (if last_component ''a/'' = [] then ''a/'' else inplace_token ''a/''))"
      by (elim exE conjE) (rule that)
    have r: "r = - ENOENT" using x(1) v(5) by simp
    have b: "b = cbuf_of ''mod: a/''" using x(2) lc(3) by simp
    show ?thesis
      apply (rule exI [of _ s2])
      using x(1) r b by simp
  qed
  have 6: "\<exists>s2. kmod_module_parse_dep named_state 0 (cbuf_of ''mod: a'')
       = Some (s2, cbuf_of ''mod: a'', 1)"
  proof -
    from parse_dep_buffer_changed_iff [OF h n(6) d(6) c t(1,2) r(3)]
    obtain s2 b r where x: "kmod_module_parse_dep named_state 0 (cbuf_of ''mod: a'') = Some (s2, b, r)"
      "([] :: string) = [] \<longrightarrow> b = cbuf_of (''mod'' @ CHR '':'' # '' '' @
          (if last_component ''a'' = [] then ''a'' else inplace_token ''a''))"
      by (elim exE conjE) (rule that)
    have r: "r = 1" using x(1) v(6) by simp
    have b: "b = cbuf_of ''mod: a''" using x(2) lc(4) it(3) by simp
    show ?thesis
      apply (rule exI [of _ s2])
      using x(1) r b by simp
  qed
  show ?thesis using 1 2 3 4 5 6 by (intro conjI)
qed

text \<open>
  C10 as stated fails: the line \<open>mod: a\<close> has a colon and one token after it, and
  \<open>kmod_module_parse_dep\<close> returns 1 with the buffer as it was. The only token ends at
  the terminator, so \<open>strtok_r\<close> writes nothing, and it has neither \<open>-\<close> nor \<open>.\<close>
  for \<open>path_to_modname\<close> to overwrite. And where the buffer does change, a retry
  need not see other tokens: on the line \<open>mod: a\<close> followed by one space, with the
  handle refused, the call fails with \<open>-ENOMEM\<close>, the space alone is overwritten, and
  the line the buffer then holds has the same single token \<open>a\<close>.
\<close>

theorem parse_dep_single_token_buffer_unchanged:
  "tokens '' a'' = [''a''] \<and>
   map_option (fst \<circ> snd) (kmod_module_parse_dep named_state 0 (cbuf_of ''mod: a''))
     = Some (cbuf_of ''mod: a'') \<and>
   map_option (snd \<circ> snd) (kmod_module_parse_dep named_state 0 (cbuf_of ''mod: a'')) = Some 1 \<and>
   tokens '' a '' = [''a''] \<and>
   map_option (fst \<circ> snd) (kmod_module_parse_dep refused_state 0 (cbuf_of ''mod: a ''))
     = Some (''mod: a'' @ [NUL, NUL]) \<and>
   map_option (snd \<circ> snd) (kmod_module_parse_dep refused_state 0 (cbuf_of ''mod: a ''))
     = Some (- ENOMEM) \<and>
   cstr (''mod: a'' @ [NUL, NUL]) 0 = ''mod: a''"
  by code_simp

end
